theory Spec2Isabelle
  imports Main "HOL-Library.Word" "HOL-Library.Log_Nat"
begin

section \<open>Floating-point arithmetic on rationals\<close>

text \<open>
  \<^verbatim>\<open>overlay_image\<close> computes in numpy \<^verbatim>\<open>float64\<close>, and OpenCV's box filter scales its
  window sums in double or, in its vector lanes, in single precision.  Every value they
  meet is a finite number far from the overflow and underflow thresholds (the operands
  are 8-bit samples, sums of these, \<^verbatim>\<open>1 / 255.0\<close>, \<^verbatim>\<open>255.0\<close>, the reciprocal of a kernel
  area, and products and sums of such), so a floating-point number is represented by the
  rational number it denotes and each operation is the exact operation followed by
  rounding to \<open>p\<close> significant bits, ties to even: \<open>p = 53\<close> for a double, \<open>p = 24\<close> for
  a float.
\<close>

definition pow2 :: "int \<Rightarrow> rat" where
  "pow2 k = (if 0 \<le> k then 2 ^ nat k else 1 / 2 ^ nat (- k))"

text \<open>The binary exponent \<open>\<lfloor>log\<^sub>2 x\<rfloor>\<close> of a positive rational.\<close>

definition ilog2 :: "rat \<Rightarrow> int" where
  "ilog2 x = (let (p, q) = quotient_of x; k = bitlen p - bitlen q
              in if pow2 k \<le> x then k else k - 1)"

text \<open>Rounding to the nearest integer, ties to the even one.\<close>

definition rint :: "rat \<Rightarrow> int" where
  "rint s = (let f = \<lfloor>s\<rfloor>; d = s - of_int f
             in if d < 1 / 2 then f else if 1 / 2 < d then f + 1
                else if even f then f else f + 1)"

definition round_to :: "nat \<Rightarrow> rat \<Rightarrow> rat" where
  "round_to p x = (if x = 0 then 0
                   else let e = ilog2 \<bar>x\<bar> - (int p - 1)
                        in sgn x * of_int (rint (\<bar>x\<bar> / pow2 e)) * pow2 e)"

definition rnd :: "rat \<Rightarrow> rat" where
  "rnd x = round_to 53 x"

definition rnd32 :: "rat \<Rightarrow> rat" where
  "rnd32 x = round_to 24 x"

definition fmul :: "rat \<Rightarrow> rat \<Rightarrow> rat" where
  "fmul x y = rnd (x * y)"

definition fadd :: "rat \<Rightarrow> rat \<Rightarrow> rat" where
  "fadd x y = rnd (x + y)"

definition fsub :: "rat \<Rightarrow> rat \<Rightarrow> rat" where
  "fsub x y = rnd (x - y)"

definition fdiv :: "rat \<Rightarrow> rat \<Rightarrow> rat" where
  "fdiv x y = rnd (x / y)"

text \<open>The fused multiply-add: the product is not rounded before the sum.\<close>

definition fma :: "rat \<Rightarrow> rat \<Rightarrow> rat \<Rightarrow> rat" where
  "fma x y z = rnd (x * y + z)"

definition fmul32 :: "rat \<Rightarrow> rat \<Rightarrow> rat" where
  "fmul32 x y = rnd32 (x * y)"

text \<open>Half a unit in the last place, relative: the error bound of one rounding.\<close>

definition ulp_half :: rat where
  "ulp_half = 1 / 2 ^ 53"

definition ulp_half32 :: rat where
  "ulp_half32 = 1 / 2 ^ 24"

text \<open>
  \<open>x\<close> approximates the non-negative \<open>y\<close> after at most \<open>k\<close> roundings of relative
  error \<open>u\<close> each.
\<close>

definition nearu :: "rat \<Rightarrow> nat \<Rightarrow> rat \<Rightarrow> rat \<Rightarrow> bool" where
  "nearu u k x y \<longleftrightarrow> 0 \<le> y \<and> y * (1 - u) ^ k \<le> x \<and> x \<le> y * (1 + u) ^ k"

abbreviation near :: "nat \<Rightarrow> rat \<Rightarrow> rat \<Rightarrow> bool" where
  "near \<equiv> nearu ulp_half"

abbreviation near32 :: "nat \<Rightarrow> rat \<Rightarrow> rat \<Rightarrow> bool" where
  "near32 \<equiv> nearu ulp_half32"

section \<open>Images\<close>

text \<open>
  A frame is a numpy array of shape \<open>(height, width, 3)\<close> with \<^verbatim>\<open>uint8\<close> samples in
  blue, green, red order: a list of rows of pixels.  The intermediate \<^verbatim>\<open>float64\<close>
  arrays have the same layout with rational samples, and a single-channel image has
  one sample per pixel.
\<close>

type_synonym u8 = "8 word"
type_synonym pixel = "u8 \<times> u8 \<times> u8"
type_synonym image = "pixel list list"
type_synonym gray_image = "u8 list list"
type_synonym fpixel = "rat \<times> rat \<times> rat"
type_synonym fimage = "fpixel list list"

datatype error = CvError | ValueError | IndexError

definition height :: "'a list list \<Rightarrow> nat" where
  "height a = length a"

definition width :: "'a list list \<Rightarrow> nat" where
  "width a = (case a of [] \<Rightarrow> 0 | r # _ \<Rightarrow> length r)"

text \<open>An array of \<open>h\<close> rows and \<open>w\<close> columns, both positive.\<close>

definition is_image :: "nat \<Rightarrow> nat \<Rightarrow> 'a list list \<Rightarrow> bool" where
  "is_image h w a \<longleftrightarrow> 0 < h \<and> 0 < w \<and> length a = h \<and> list_all (\<lambda>r. length r = w) a"

definition white :: pixel where
  "white = (255, 255, 255)"

definition black :: pixel where
  "black = (0, 0, 0)"

definition solid :: "nat \<Rightarrow> nat \<Rightarrow> 'a \<Rightarrow> 'a list list" where
  "solid h w p = replicate h (replicate w p)"

section \<open>The compositor\<close>

text \<open>
  \<^verbatim>\<open>cv.cvtColor(m, cv.COLOR_BGR2GRAY)\<close> on 8-bit input is OpenCV's fixed-point luma
  \<open>(3735 B + 19235 G + 9798 R + 2\<^sup>1\<^sup>4) >> 15\<close>; the weights add up to \<open>2\<^sup>1\<^sup>5\<close>.
  OpenCV rejects an empty source.
\<close>

definition bgr2gray :: "pixel \<Rightarrow> u8" where
  "bgr2gray p = (case p of (b, g, r) \<Rightarrow>
     word_of_nat ((3735 * unat b + 19235 * unat g + 9798 * unat r + 16384) div 32768))"

definition cvtColor_BGR2GRAY :: "image \<Rightarrow> error + gray_image" where
  "cvtColor_BGR2GRAY src =
     (if height src = 0 \<or> width src = 0 then Inl CvError
      else Inr (map (map bgr2gray) src))"

definition cvtColor_GRAY2BGR :: "gray_image \<Rightarrow> error + image" where
  "cvtColor_GRAY2BGR src =
     (if height src = 0 \<or> width src = 0 then Inl CvError
      else Inr (map (map (\<lambda>v. (v, v, v))) src))"

text \<open>\<^verbatim>\<open>255 - a\<close> on a \<^verbatim>\<open>uint8\<close> array stays \<^verbatim>\<open>uint8\<close>.\<close>

definition rsub255 :: "gray_image \<Rightarrow> gray_image" where
  "rsub255 a = map (map (\<lambda>v. 255 - v)) a"

text \<open>\<^verbatim>\<open>a * c\<close> for a \<^verbatim>\<open>uint8\<close> array and a Python float: a \<^verbatim>\<open>float64\<close> array.\<close>

definition of_u8 :: "u8 \<Rightarrow> rat" where
  "of_u8 v = of_nat (unat v)"

definition scale_px :: "rat \<Rightarrow> pixel \<Rightarrow> fpixel" where
  "scale_px c p = (case p of (b, g, r) \<Rightarrow> (fmul (of_u8 b) c, fmul (of_u8 g) c, fmul (of_u8 r) c))"

definition np_scale :: "image \<Rightarrow> rat \<Rightarrow> fimage" where
  "np_scale a c = map (map (scale_px c)) a"

text \<open>
  \<^verbatim>\<open>a * b\<close> for two \<^verbatim>\<open>float64\<close> arrays is elementwise after numpy broadcasting: along
  each axis the lengths must be equal, or one of them 1, which is then repeated.
  Anything else raises \<^verbatim>\<open>ValueError\<close>.
\<close>

definition broadcast_len :: "nat \<Rightarrow> nat \<Rightarrow> nat option" where
  "broadcast_len m n =
     (if m = n then Some m else if m = 1 then Some n else if n = 1 then Some m else None)"

definition stretch :: "nat \<Rightarrow> 'a list \<Rightarrow> 'a list" where
  "stretch n xs = (if length xs = n then xs else replicate n (hd xs))"

definition fmul3 :: "fpixel \<Rightarrow> fpixel \<Rightarrow> fpixel" where
  "fmul3 p q = (case (p, q) of ((x1, x2, x3), (y1, y2, y3)) \<Rightarrow>
     (fmul x1 y1, fmul x2 y2, fmul x3 y3))"

definition np_multiply :: "fimage \<Rightarrow> fimage \<Rightarrow> error + fimage" where
  "np_multiply a b =
     (case (broadcast_len (height a) (height b), broadcast_len (width a) (width b)) of
        (Some h, Some w) \<Rightarrow>
          Inr (map2 (map2 fmul3) (stretch h (map (stretch w) a)) (stretch h (map (stretch w) b)))
      | _ \<Rightarrow> Inl ValueError)"

text \<open>
  \<^verbatim>\<open>cv.addWeighted(src1, alpha, src2, beta, gamma)\<close> is
  \<open>src1 * alpha + src2 * beta + gamma\<close> per sample in the depth of the sources, here
  double.  OpenCV evaluates it with two fused multiply-adds, the second source first:
  \<open>fma(src1, alpha, fma(src2, beta, gamma))\<close>.  Two sources of different sizes are an
  OpenCV error.
\<close>

definition add_weighted1 :: "rat \<Rightarrow> rat \<Rightarrow> rat \<Rightarrow> rat \<Rightarrow> rat \<Rightarrow> rat" where
  "add_weighted1 alpha beta gamma x y = fma x alpha (fma y beta gamma)"

definition add_weighted3 :: "rat \<Rightarrow> rat \<Rightarrow> rat \<Rightarrow> fpixel \<Rightarrow> fpixel \<Rightarrow> fpixel" where
  "add_weighted3 alpha beta gamma p q = (case (p, q) of ((x1, x2, x3), (y1, y2, y3)) \<Rightarrow>
     (add_weighted1 alpha beta gamma x1 y1, add_weighted1 alpha beta gamma x2 y2,
      add_weighted1 alpha beta gamma x3 y3))"

definition addWeighted :: "fimage \<Rightarrow> rat \<Rightarrow> fimage \<Rightarrow> rat \<Rightarrow> rat \<Rightarrow> error + fimage" where
  "addWeighted src1 alpha src2 beta gamma =
     (if height src1 = height src2 \<and> width src1 = width src2
      then Inr (map2 (map2 (add_weighted3 alpha beta gamma)) src1 src2)
      else Inl CvError)"

text \<open>
  \<^verbatim>\<open>np.uint8(a)\<close> on a \<^verbatim>\<open>float64\<close> array converts each sample as C does: the fraction is
  dropped (towards zero).  For a value outside 0 to 255 C defines no result; numpy on
  the usual platforms converts through a wider integer and keeps its low eight bits,
  that is the value modulo 256, and so does the model.
\<close>

definition trunc :: "rat \<Rightarrow> int" where
  "trunc x = (if 0 \<le> x then \<lfloor>x\<rfloor> else - \<lfloor>- x\<rfloor>)"

definition to_uint8 :: "rat \<Rightarrow> u8" where
  "to_uint8 x = word_of_int (trunc x)"

definition uint8_px :: "fpixel \<Rightarrow> pixel" where
  "uint8_px p = (case p of (x1, x2, x3) \<Rightarrow> (to_uint8 x1, to_uint8 x2, to_uint8 x3))"

definition np_uint8 :: "fimage \<Rightarrow> image" where
  "np_uint8 a = map (map uint8_px) a"

text \<open>The array handed to \<^verbatim>\<open>np.uint8\<close> in the last line of \<^verbatim>\<open>overlay_image\<close>.\<close>

definition weighted_sum :: "image \<Rightarrow> image \<Rightarrow> image \<Rightarrow> error + fimage" where
  "weighted_sum foreground_image background_image foreground_mask =
     (case cvtColor_BGR2GRAY foreground_mask of
        Inl e \<Rightarrow> Inl e
      | Inr gray \<Rightarrow>
     (case cvtColor_GRAY2BGR (rsub255 gray) of
        Inl e \<Rightarrow> Inl e
      | Inr background_mask \<Rightarrow>
     (case np_multiply (np_scale foreground_image (fdiv 1 255))
                       (np_scale foreground_mask (fdiv 1 255)) of
        Inl e \<Rightarrow> Inl e
      | Inr masked_fg \<Rightarrow>
     (case np_multiply (np_scale background_image (fdiv 1 255))
                       (np_scale background_mask (fdiv 1 255)) of
        Inl e \<Rightarrow> Inl e
      | Inr masked_bg \<Rightarrow> addWeighted masked_fg 255 masked_bg 255 0))))"

definition overlay_image :: "image \<Rightarrow> image \<Rightarrow> image \<Rightarrow> error + image" where
  "overlay_image foreground_image background_image foreground_mask =
     (case weighted_sum foreground_image background_image foreground_mask of
        Inl e \<Rightarrow> Inl e
      | Inr blended \<Rightarrow> Inr (np_uint8 blended))"

section \<open>The compositor, sample by sample\<close>

text \<open>
  Every step of \<^verbatim>\<open>overlay_image\<close> is elementwise, so the value handed to
  \<^verbatim>\<open>np.uint8\<close> for one channel depends on the foreground sample \<open>f\<close>, the background
  sample \<open>b\<close>, the mask sample \<open>mf\<close> of that channel and the background weight \<open>mb\<close>,
  which is 255 minus the gray value of the mask pixel.
\<close>

definition channel_sum :: "u8 \<Rightarrow> u8 \<Rightarrow> u8 \<Rightarrow> u8 \<Rightarrow> rat" where
  "channel_sum f b mf mb =
     add_weighted1 255 255 0
       (fmul (fmul (of_u8 f) (fdiv 1 255)) (fmul (of_u8 mf) (fdiv 1 255)))
       (fmul (fmul (of_u8 b) (fdiv 1 255)) (fmul (of_u8 mb) (fdiv 1 255)))"

definition blend_px :: "pixel \<Rightarrow> pixel \<Rightarrow> pixel \<Rightarrow> fpixel" where
  "blend_px f b m = (case (f, b, m) of ((f1, f2, f3), (b1, b2, b3), (m1, m2, m3)) \<Rightarrow>
     (channel_sum f1 b1 m1 (255 - bgr2gray m), channel_sum f2 b2 m2 (255 - bgr2gray m),
      channel_sum f3 b3 m3 (255 - bgr2gray m)))"

text \<open>The three samples of a pixel, in storage order.\<close>

definition channels :: "'a \<times> 'a \<times> 'a \<Rightarrow> 'a list" where
  "channels p = (case p of (b, g, r) \<Rightarrow> [b, g, r])"

text \<open>
  The conversion as the specification words it, for comparison with \<open>to_uint8\<close>: the
  nearest integer, clamped to the range 0 to 255.
\<close>

definition spec_round_clamp :: "rat \<Rightarrow> u8" where
  "spec_round_clamp x = word_of_int (max 0 (min 255 (rint x)))"

definition spec_round_clamp_image :: "fimage \<Rightarrow> image" where
  "spec_round_clamp_image a =
     map (map (\<lambda>(x1, x2, x3). (spec_round_clamp x1, spec_round_clamp x2, spec_round_clamp x3))) a"

text \<open>A mask whose three channels are equal at every pixel.\<close>

definition is_gray_px :: "pixel \<Rightarrow> bool" where
  "is_gray_px p = (case p of (b, g, r) \<Rightarrow> b = g \<and> g = r)"

definition gray_mask :: "image \<Rightarrow> bool" where
  "gray_mask M = list_all (list_all is_gray_px) M"

text \<open>Channel \<open>c\<close> (0, 1 or 2) of a pixel, as an integer.\<close>

definition sample :: "pixel \<Rightarrow> nat \<Rightarrow> int" where
  "sample p c = uint (channels p ! c)"

text \<open>
  The convex combination of the specification, for channel \<open>c\<close> of one pixel: the
  foreground weighted by the normalized mask sample, the background by its complement.
\<close>

definition spec_convex :: "pixel \<Rightarrow> pixel \<Rightarrow> pixel \<Rightarrow> nat \<Rightarrow> rat" where
  "spec_convex f b m c =
     (of_int (sample m c) / 255) * of_int (sample f c)
       + (1 - of_int (sample m c) / 255) * of_int (sample b c)"

text \<open>The same value times 255, an integer (\<open>blend255_spec_convex\<close> below).\<close>

definition blend255 :: "pixel \<Rightarrow> pixel \<Rightarrow> pixel \<Rightarrow> nat \<Rightarrow> int" where
  "blend255 f b m c = sample m c * sample f c + (255 - sample m c) * sample b c"

text \<open>
  The shape of the product of two arrays under numpy broadcasting, when there is one,
  and the pixel that a broadcast array contributes at row \<open>i\<close>, column \<open>j\<close>: an axis
  of length 1 is read at index 0 everywhere.
\<close>

definition broadcast_shape :: "'a list list \<Rightarrow> 'b list list \<Rightarrow> (nat \<times> nat) option" where
  "broadcast_shape a b =
     (case (broadcast_len (height a) (height b), broadcast_len (width a) (width b)) of
        (Some h, Some w) \<Rightarrow> Some (h, w)
      | _ \<Rightarrow> None)"

definition bsel :: "nat \<Rightarrow> nat \<Rightarrow> nat" where
  "bsel n i = (if n = 1 then 0 else i)"

definition bpixel :: "'a list list \<Rightarrow> nat \<Rightarrow> nat \<Rightarrow> 'a" where
  "bpixel a i j = a ! bsel (height a) i ! bsel (width a) j"

text \<open>
  255 times the weighted sum that \<^verbatim>\<open>overlay_image\<close> approximates for channel \<open>c\<close> of
  one pixel, in exact integers: the foreground sample times the mask sample plus the
  background sample times the background weight.
\<close>

definition weighted255 :: "pixel \<Rightarrow> pixel \<Rightarrow> pixel \<Rightarrow> nat \<Rightarrow> int" where
  "weighted255 f b m c =
     sample m c * sample f c + (255 - uint (bgr2gray m)) * sample b c"

section \<open>The color table\<close>

text \<open>
  The part of the segmentation model that \<^verbatim>\<open>main\<close> reads and writes: the label list and
  the color list, one color per class index.
\<close>

record segmenter =
  labels :: "string list"
  colors :: "pixel list"

text \<open>Python's \<^verbatim>\<open>list.index\<close>: the first position of the value, \<^verbatim>\<open>ValueError\<close> if absent.\<close>

fun list_index :: "'a list \<Rightarrow> 'a \<Rightarrow> error + nat" where
  "list_index [] x = Inl ValueError"
| "list_index (y # ys) x =
     (if y = x then Inr 0
      else case list_index ys x of Inl e \<Rightarrow> Inl e | Inr i \<Rightarrow> Inr (Suc i))"

text \<open>\<^verbatim>\<open>xs[i] = v\<close> for a non-negative index: \<^verbatim>\<open>IndexError\<close> out of range.\<close>

definition set_item :: "'a list \<Rightarrow> nat \<Rightarrow> 'a \<Rightarrow> error + 'a list" where
  "set_item xs i v = (if i < length xs then Inr (xs[i := v]) else Inl IndexError)"

text \<open>The loop over \<^verbatim>\<open>labels_to_mask\<close>, which paints the color of each label white.\<close>

fun paint_targets :: "string list \<Rightarrow> string list \<Rightarrow> pixel list \<Rightarrow> error + pixel list" where
  "paint_targets labs [] cols = Inr cols"
| "paint_targets labs (label # rest) cols =
     (case list_index labs label of
        Inl e \<Rightarrow> Inl e
      | Inr index \<Rightarrow>
          (case set_item cols index white of
             Inl e \<Rightarrow> Inl e
           | Inr cols' \<Rightarrow> paint_targets labs rest cols'))"

text \<open>Lines 96 to 101 of \<^verbatim>\<open>main\<close>: every color reset to black, then the targets painted.\<close>

definition build_color_table :: "segmenter \<Rightarrow> string list \<Rightarrow> error + pixel list" where
  "build_color_table seg labels_to_mask =
     paint_targets (labels seg) labels_to_mask (map (\<lambda>i. black) (colors seg))"

text \<open>
  The color table as the specification words it: white at the indices of the target
  labels, black elsewhere.
\<close>

definition spec_color_table :: "string list \<Rightarrow> string list \<Rightarrow> pixel list" where
  "spec_color_table labs targets = map (\<lambda>l. if l \<in> set targets then white else black) labs"

text \<open>Index \<open>i\<close> holds the first occurrence of its label.\<close>

definition first_occurrence :: "'a list \<Rightarrow> nat \<Rightarrow> bool" where
  "first_occurrence xs i \<longleftrightarrow> xs ! i \<notin> set (take i xs)"

section \<open>Mask preparation\<close>

text \<open>
  \<^verbatim>\<open>cv.getStructuringElement(cv.MORPH_CROSS, ksize, anchor)\<close>: a \<open>height \<times> width\<close> matrix
  that is set on the anchor's row and on the anchor's column.
\<close>

definition getStructuringElement_cross :: "nat \<times> nat \<Rightarrow> nat \<times> nat \<Rightarrow> bool list list" where
  "getStructuringElement_cross ksize anchor = (case (ksize, anchor) of ((kw, kh), (ax, ay)) \<Rightarrow>
     map (\<lambda>i. map (\<lambda>j. i = ay \<or> j = ax) [0..<kw]) [0..<kh])"

text \<open>The displacements \<open>(dy, dx)\<close> of the set cells of an element from its anchor.\<close>

definition kernel_offsets :: "bool list list \<Rightarrow> nat \<times> nat \<Rightarrow> (int \<times> int) list" where
  "kernel_offsets element anchor = (case anchor of (ax, ay) \<Rightarrow>
     concat (map (\<lambda>i. concat (map (\<lambda>j.
       if element ! i ! j then [(int i - int ay, int j - int ax)] else [])
       [0..<length (element ! i)])) [0..<length element]))"

definition max_px :: "pixel \<Rightarrow> pixel \<Rightarrow> pixel" where
  "max_px p q = (case (p, q) of ((p1, p2, p3), (q1, q2, q3)) \<Rightarrow> (max p1 q1, max p2 q2, max p3 q3))"

text \<open>The pixel at row \<open>y\<close>, column \<open>x\<close>, if the position is inside the image.\<close>

definition px_at :: "image \<Rightarrow> int \<Rightarrow> int \<Rightarrow> pixel option" where
  "px_at img y x =
     (if 0 \<le> y \<and> y < int (length img) \<and> 0 \<le> x \<and> x < int (length (img ! nat y))
      then Some (img ! nat y ! nat x) else None)"

text \<open>
  \<^verbatim>\<open>cv.dilate(src, element)\<close> with its defaults (anchor at the element's center, one
  iteration, constant border with the default border value): each output sample is the
  maximum of the source over the set cells of the element placed on the pixel, positions
  outside the image not counting.
\<close>

definition dilate_px :: "image \<Rightarrow> (int \<times> int) list \<Rightarrow> nat \<Rightarrow> nat \<Rightarrow> pixel" where
  "dilate_px src offs y x =
     fold (\<lambda>d acc. case px_at src (int y + fst d) (int x + snd d) of
                     None \<Rightarrow> acc | Some p \<Rightarrow> max_px acc p) offs (0, 0, 0)"

definition cv_dilate :: "image \<Rightarrow> bool list list \<Rightarrow> image" where
  "cv_dilate src element =
     (let anchor = (width element div 2, height element div 2);
          offs = kernel_offsets element anchor
      in map (\<lambda>y. map (\<lambda>x. dilate_px src offs y x) [0..<length (src ! y)]) [0..<length src])"

text \<open>The number of white pixels of a mask.\<close>

definition whiteArea :: "image \<Rightarrow> nat" where
  "whiteArea img = sum_list (map (\<lambda>row. length (filter (\<lambda>p. p = white) row)) img)"

text \<open>Channelwise order on pixels.\<close>

definition px_le :: "pixel \<Rightarrow> pixel \<Rightarrow> bool" where
  "px_le p q = (case (p, q) of ((p1, p2, p3), (q1, q2, q3)) \<Rightarrow> p1 \<le> q1 \<and> p2 \<le> q2 \<and> p3 \<le> q3)"

text \<open>
  OpenCV's \<^verbatim>\<open>borderInterpolate\<close> for \<^verbatim>\<open>BORDER_REFLECT_101\<close>, the default border of
  \<^verbatim>\<open>cv.blur\<close>: a position outside \<open>0 \<dots> len - 1\<close> is mirrored at the first or the last
  sample, without repeating it, until it falls inside.
\<close>

function reflect101 :: "int \<Rightarrow> int \<Rightarrow> int" where
  "reflect101 p len =
     (if 0 \<le> p \<and> p < len then p
      else if len \<le> 1 then 0
      else if p < 0 then reflect101 (- p) len
      else reflect101 (2 * len - 2 - p) len)"
  by pat_completeness auto
termination
  by (relation "measure (\<lambda>(p, len). if p < 0 then nat (2 * (- p) + 1)
                                      else if len \<le> p then nat (2 * p) else 0)") auto

declare reflect101.simps [simp del]

text \<open>
  The sum of channel \<open>c\<close> over the \<open>k \<times> k\<close> window whose anchor, the cell
  \<open>(k div 2, k div 2)\<close>, lies on the pixel \<open>(y, x)\<close>.
\<close>

definition window_sum :: "image \<Rightarrow> nat \<Rightarrow> nat \<Rightarrow> nat \<Rightarrow> nat \<Rightarrow> int" where
  "window_sum src k c y x =
     sum_list (map (\<lambda>i. sum_list (map (\<lambda>j.
         sample (src ! nat (reflect101 (int y + int i - int (k div 2)) (int (height src)))
                     ! nat (reflect101 (int x + int j - int (k div 2)) (int (width src)))) c)
       [0..<k])) [0..<k])"

text \<open>OpenCV's \<^verbatim>\<open>saturate_cast<uchar>\<close> of a double: the nearest integer, ties to even, clamped.\<close>

definition saturate_cast_uchar :: "rat \<Rightarrow> u8" where
  "saturate_cast_uchar v = word_of_int (max 0 (min 255 (rint v)))"

text \<open>
  The kernel sizes that OpenCV's box filter can work with: positive, and with an area
  \<^verbatim>\<open>ksize.width * ksize.height\<close> that fits C's \<^verbatim>\<open>int\<close>, in which the filter computes it.
\<close>

definition valid_ksize :: "int \<Rightarrow> bool" where
  "valid_ksize k \<longleftrightarrow> 0 < k \<and> k * k < 2 ^ 31"

text \<open>
  For 8-bit images and a kernel area of at most 256, the box filter adds up the window
  in 16-bit unsigned integers and divides in fixed point: from the double
  \<open>scale = 1 / area\<close> the constructor of the column filter derives
    \<^verbatim>\<open>d = cvRound(1./scale)\<close>, \<^verbatim>\<open>scalef = (double)(1 << 23)/d\<close>,
    \<^verbatim>\<open>divScale = cvFloor(scalef)\<close>, \<^verbatim>\<open>scalef -= divScale\<close>, \<^verbatim>\<open>divDelta = d/2\<close>,
  and then increments \<^verbatim>\<open>divDelta\<close> if \<^verbatim>\<open>scalef < 0.5\<close> and \<^verbatim>\<open>divScale\<close> otherwise.
  The pair is \<open>(divScale, divDelta)\<close>.
\<close>

definition fixed_point_scale :: "rat \<Rightarrow> int \<times> int" where
  "fixed_point_scale scale =
     (let d = rint (fdiv 1 scale);
          scalef = fdiv 8388608 (of_int d);
          divScale = \<lfloor>scalef\<rfloor>;
          frac = fsub scalef (of_int divScale)
      in if frac < 1 / 2 then (divScale, d div 2 + 1) else (divScale + 1, d div 2))"

text \<open>
  The column filter for 32-bit sums handles the first elements of a row in vector
  loops and the rest one by one.  A build of the library is described by the strides
  of its vector loops, in order (none for a build without vector instructions, 8 for
  128-bit registers, 16 and then 4 for 256-bit registers); each loop runs while a
  whole stride is left.  This is the number of elements of a row of \<open>n\<close> elements that
  the vector loops handle.
\<close>

definition simd_covered :: "nat list \<Rightarrow> nat \<Rightarrow> nat" where
  "simd_covered strides n = fold (\<lambda>l i. i + l * ((n - i) div l)) strides 0"

text \<open>
  One sample of the normalized box filter on an 8-bit image with three channels, for a
  kernel of size \<open>k\<close> with \<open>0 < k\<close> and \<open>k * k < 2\<^sup>3\<^sup>1\<close>.  With \<open>scale\<close> the double
  \<open>1 / (k * k)\<close> and \<open>s\<close> the window sum:
    \<^item> for an area of at most 256 the sum is held in 16 bits and the sample is
      \<^verbatim>\<open>(uchar)((s + divDelta) * divScale >> 23)\<close>, or \<^verbatim>\<open>saturate_cast<uchar>(s)\<close> when the
      scale is 1;
    \<^item> for an area of at most \<open>2\<^sup>2\<^sup>3\<close> the sum is held in 32 bits; in the vector loops the
      sample is the sum converted to \<^verbatim>\<open>float\<close>, times the scale converted to \<^verbatim>\<open>float\<close>,
      rounded to the nearest integer, reinterpreted as unsigned and packed with
      saturation; in the remaining elements it is \<^verbatim>\<open>saturate_cast<uchar>(s * scale)\<close> in
      doubles;
    \<^item> for a larger area the sum is held in a double and the sample is
      \<^verbatim>\<open>saturate_cast<uchar>(s * scale)\<close>.
  The elements of a row are the samples of its pixels in storage order, so channel \<open>c\<close>
  of the pixel in column \<open>x\<close> is element \<open>3 * x + c\<close>.
\<close>

definition box_sample :: "nat list \<Rightarrow> image \<Rightarrow> nat \<Rightarrow> nat \<Rightarrow> nat \<Rightarrow> nat \<Rightarrow> u8" where
  "box_sample simd src k c y x =
     (let area = int (k * k);
          scale = fdiv 1 (of_int area);
          s = window_sum src k c y x
      in if area \<le> 256 then
           (let s0 = uint (word_of_int s :: 16 word)
            in if scale = 1 then word_of_int (max 0 (min 255 s0))
               else case fixed_point_scale scale of
                 (divScale, divDelta) \<Rightarrow> word_of_int ((s0 + divDelta) * divScale div 2 ^ 23))
         else if area \<le> 2 ^ 23 then
           (let s0 = sint (word_of_int s :: 32 word)
            in if 3 * x + c < simd_covered simd (3 * width src)
               then (let r = rint (fmul32 (rnd32 (of_int s0)) (rnd32 scale))
                     in word_of_int (if r < 0 then 255 else min 255 r))
               else saturate_cast_uchar (fmul (of_int s0) scale))
         else saturate_cast_uchar (fmul (rnd (of_int s)) scale))"

text \<open>
  \<^verbatim>\<open>cv.blur(src, (k, k))\<close>: the normalized box filter with the anchor at the kernel
  center and the border reflected.  An empty source, or a kernel size that is not
  positive, is an OpenCV error.  For a kernel whose area does not fit C's \<^verbatim>\<open>int\<close> the
  library computes the area with an overflow, to which C gives no meaning: the model
  leaves that result unspecified.  The first argument describes the build of the
  library.
\<close>

definition cv_blur :: "nat list \<Rightarrow> image \<Rightarrow> int \<Rightarrow> error + image" where
  "cv_blur simd src ksize =
     (if height src = 0 \<or> width src = 0 \<or> ksize \<le> 0 then Inl CvError
      else if valid_ksize ksize then
        Inr (map (\<lambda>y. map (\<lambda>x.
               (box_sample simd src (nat ksize) 0 y x, box_sample simd src (nat ksize) 1 y x,
                box_sample simd src (nat ksize) 2 y x))
             [0..<width src]) [0..<height src])
      else undefined)"

text \<open>All samples of an image, and the least and the greatest of them.\<close>

definition all_samples :: "image \<Rightarrow> int list" where
  "all_samples img = concat (map (\<lambda>row. concat (map (\<lambda>p. map uint (channels p)) row)) img)"

definition global_min :: "image \<Rightarrow> int" where
  "global_min img = Min (set (all_samples img))"

definition global_max :: "image \<Rightarrow> int" where
  "global_max img = Max (set (all_samples img))"

section \<open>The frame loop\<close>

text \<open>The values \<^verbatim>\<open>main\<close> reads from \<^verbatim>\<open>config.json\<close> and uses in the loop.\<close>

record config =
  labels_to_mask :: "string list"
  blur :: bool
  use_background_image :: bool
  blur_level :: int

text \<open>
  What the external collaborators hand to one iteration: the frame read from the
  camera, the class map of its segmentation, the background image as read from disk and
  resized to the frame (an OpenCV error if that fails; looked at only when the
  background image is in use), and the answer of \<^verbatim>\<open>streamer.check_exit()\<close>.
\<close>

record iteration =
  frame :: image
  class_map :: "nat list list"
  resized_background :: "error + image"
  check_exit :: bool

text \<open>
  The SDK's \<^verbatim>\<open>build_image_mask\<close>: every class index of the class map replaced by its
  color.
\<close>

definition build_image_mask :: "pixel list \<Rightarrow> nat list list \<Rightarrow> error + image" where
  "build_image_mask cols cmap =
     (if list_all (list_all (\<lambda>k. k < length cols)) cmap
      then Inr (map (map (\<lambda>k. cols ! k)) cmap) else Inl IndexError)"

text \<open>
  The body of the loop, from the color table to the composited frame.  It returns the
  segmenter with its new color table and the frame sent to the streamer.  The first
  argument is the build of OpenCV, as \<open>cv_blur\<close> takes it.
\<close>

definition process_frame ::
  "nat list \<Rightarrow> config \<Rightarrow> segmenter \<Rightarrow> iteration \<Rightarrow> error + segmenter \<times> image" where
  "process_frame simd cfg seg it =
     (case build_color_table seg (labels_to_mask cfg) of
        Inl e \<Rightarrow> Inl e
      | Inr cols \<Rightarrow>
     (case build_image_mask cols (class_map it) of
        Inl e \<Rightarrow> Inl e
      | Inr mask_built \<Rightarrow>
     (case cv_blur simd (cv_dilate mask_built (getStructuringElement_cross (2 * 15 + 1, 2 * 15 + 1) (15, 15)))
             (blur_level cfg) of
        Inl e \<Rightarrow> Inl e
      | Inr mask_smooth \<Rightarrow>
     (case (if use_background_image cfg then resized_background it else Inr (frame it)) of
        Inl e \<Rightarrow> Inl e
      | Inr background \<Rightarrow>
     (case (if blur cfg then cv_blur simd background (blur_level cfg) else Inr background) of
        Inl e \<Rightarrow> Inl e
      | Inr background' \<Rightarrow>
     (case overlay_image (frame it) background' mask_smooth of
        Inl e \<Rightarrow> Inl e
      | Inr out \<Rightarrow> Inr (seg\<lparr>colors := cols\<rparr>, out)))))))"

text \<open>
  The \<^verbatim>\<open>while True\<close> loop over the iterations the collaborators provide.  An exception
  leaves the loop and, through the \<^verbatim>\<open>finally\<close> block, the program; \<^verbatim>\<open>check_exit\<close>
  ends it regularly; with no further input the loop is still waiting for a frame.  The
  last argument collects the frames sent so far.
\<close>

datatype outcome = Aborted error "image list" | Exited "image list" | Waiting segmenter "image list"

fun main_loop ::
  "nat list \<Rightarrow> config \<Rightarrow> segmenter \<Rightarrow> iteration list \<Rightarrow> image list \<Rightarrow> outcome" where
  "main_loop simd cfg seg [] sent = Waiting seg sent"
| "main_loop simd cfg seg (it # its) sent =
     (case process_frame simd cfg seg it of
        Inl e \<Rightarrow> Aborted e sent
      | Inr (seg', out) \<Rightarrow>
          if check_exit it then Exited (sent @ [out])
          else main_loop simd cfg seg' its (sent @ [out]))"

section \<open>Properties of the rounding\<close>

lemma pow2_powi: "pow2 k = 2 powi k"
  by (simp add: pow2_def power_int_def inverse_eq_divide power_one_over)

lemma pow2_pos: "0 < pow2 k"
  by (simp add: pow2_powi)

lemma pow2_add: "pow2 (j + k) = pow2 j * pow2 k"
  by (simp add: pow2_powi power_int_add)

lemma pow2_mono: "j \<le> k \<Longrightarrow> pow2 j \<le> pow2 k"
  by (simp add: pow2_powi power_int_increasing)

lemma pow2_less_cancel: "pow2 j < pow2 k \<Longrightarrow> j < k"
  using pow2_mono [of k j] by (cases "j < k") auto

lemma pow2_of_nat: "pow2 (int n) = 2 ^ n"
  by (simp add: pow2_powi)

lemma quotient_of_pos:
  assumes "0 < x" and "quotient_of x = (p, q)"
  shows "0 < p" and "0 < q" and "x = of_int p / of_int q"
proof -
  show q: "0 < q" using assms(2) by (rule quotient_of_denom_pos)
  show x: "x = of_int p / of_int q" using assms(2) by (rule quotient_of_div)
  show "0 < p" using assms(1) q x by (simp add: zero_less_divide_iff)
qed

lemma bitlen_pow2_bounds:
  assumes "0 < p"
  shows "pow2 (bitlen p - 1) \<le> of_int p" and "of_int p < pow2 (bitlen p)"
proof -
  have b: "2 ^ nat (bitlen p - 1) \<le> p" "p < 2 ^ nat (bitlen p)"
    using bitlen_bounds [OF assms] by auto
  have pos: "0 < bitlen p" using assms by (auto simp: bitlen_alt_def)
  have "pow2 (bitlen p - 1) = of_int (2 ^ nat (bitlen p - 1))"
    using pos by (simp add: pow2_def)
  also have "\<dots> \<le> of_int p" using b(1) by (simp only: of_int_le_iff)
  finally show "pow2 (bitlen p - 1) \<le> of_int p" .
  have "(of_int p :: rat) < of_int (2 ^ nat (bitlen p))" using b(2) by (simp only: of_int_less_iff)
  also have "\<dots> = pow2 (bitlen p)" using pos by (simp add: pow2_def)
  finally show "of_int p < pow2 (bitlen p)" .
qed

lemma ilog2_bounds:
  assumes "0 < x"
  shows "pow2 (ilog2 x) \<le> x" and "x < pow2 (ilog2 x + 1)"
proof -
  obtain p q where pq: "quotient_of x = (p, q)" by (cases "quotient_of x")
  note f = quotient_of_pos [OF assms pq]
  define k where "k = bitlen p - bitlen q"
  have il: "ilog2 x = (if pow2 k \<le> x then k else k - 1)"
    by (simp add: ilog2_def pq k_def Let_def)
  have qpos: "(0::rat) < of_int q" using f(2) by simp
  have lo: "pow2 (k - 1) < x"
  proof -
    have "pow2 (k - 1) * of_int q < pow2 (k - 1) * pow2 (bitlen q)"
      using bitlen_pow2_bounds(2) [OF f(2)] pow2_pos by simp
    also have "\<dots> = pow2 (bitlen p - 1)"
      by (simp add: k_def pow2_add [symmetric])
    also have "\<dots> \<le> of_int p" by (rule bitlen_pow2_bounds(1) [OF f(1)])
    finally show ?thesis using qpos f(3) by (simp add: pos_less_divide_eq)
  qed
  have hi: "x < pow2 (k + 1)"
  proof -
    have "of_int p < pow2 (bitlen p)" by (rule bitlen_pow2_bounds(2) [OF f(1)])
    also have "\<dots> = pow2 (k + 1) * pow2 (bitlen q - 1)"
      by (simp add: k_def pow2_add [symmetric])
    also have "\<dots> \<le> pow2 (k + 1) * of_int q"
      using bitlen_pow2_bounds(1) [OF f(2)] pow2_pos [of "k + 1"] by simp
    finally show ?thesis using qpos f(3) by (simp add: pos_divide_less_eq)
  qed
  show "pow2 (ilog2 x) \<le> x" using il lo by (auto simp: less_imp_le)
  show "x < pow2 (ilog2 x + 1)" using il hi by (auto simp: not_le)
qed

lemma ilog2_unique:
  assumes "0 < x" and "pow2 k \<le> x" and "x < pow2 (k + 1)"
  shows "ilog2 x = k"
proof -
  have "pow2 k < pow2 (ilog2 x + 1)" using assms(2) ilog2_bounds(2) [OF assms(1)] by simp
  then have a: "k < ilog2 x + 1" by (rule pow2_less_cancel)
  have "pow2 (ilog2 x) < pow2 (k + 1)" using assms(3) ilog2_bounds(1) [OF assms(1)] by simp
  then have "ilog2 x < k + 1" by (rule pow2_less_cancel)
  with a show ?thesis by simp
qed

lemma rint_bounds: "of_int (rint s) - 1 / 2 \<le> s" "s \<le> of_int (rint s) + 1 / 2"
proof -
  have f: "of_int \<lfloor>s\<rfloor> \<le> s" "s < of_int \<lfloor>s\<rfloor> + 1" by linarith+
  show "of_int (rint s) - 1 / 2 \<le> s"
    unfolding rint_def Let_def using f by (simp split: if_splits; linarith)
  show "s \<le> of_int (rint s) + 1 / 2"
    unfolding rint_def Let_def using f by (simp split: if_splits; linarith)
qed

lemma round_to_pos_eq:
  assumes "0 < x" and "pow2 (e + int p - 1) \<le> x" and "x < pow2 (e + int p)"
  shows "round_to p x = of_int (rint (x / pow2 e)) * pow2 e"
proof -
  have "ilog2 x = e + int p - 1" using assms by (intro ilog2_unique) (simp_all add: algebra_simps)
  then show ?thesis using assms(1) by (simp add: round_to_def Let_def)
qed

lemma rnd_pos_eq:
  assumes "0 < x" and "pow2 (e + 52) \<le> x" and "x < pow2 (e + 53)"
  shows "rnd x = of_int (rint (x / pow2 e)) * pow2 e"
  unfolding rnd_def using assms by (intro round_to_pos_eq) (simp_all add: add.commute)

lemma rnd32_pos_eq:
  assumes "0 < x" and "pow2 (e + 23) \<le> x" and "x < pow2 (e + 24)"
  shows "rnd32 x = of_int (rint (x / pow2 e)) * pow2 e"
  unfolding rnd32_def using assms by (intro round_to_pos_eq) (simp_all add: add.commute)

lemma floor_numeral_div: "\<lfloor>numeral a / numeral b :: rat\<rfloor> = numeral a div numeral b"
  using floor_divide_of_int_eq [of "numeral a" "numeral b", where ?'a = rat] by simp

lemmas rnd_eval = pow2_def rint_def Let_def floor_numeral_div

lemma inv255: "fdiv 1 255 = 282578800148737 / 72057594037927936"
  unfolding fdiv_def
  by (subst rnd_pos_eq [where e = "-60"]) (simp_all add: rnd_eval)

lemma rnd_zero: "rnd 0 = 0"
  by (simp add: rnd_def round_to_def)

lemma round_to_error:
  assumes "0 \<le> x" and "0 < p"
  shows "x * (1 - 1 / 2 ^ p) \<le> round_to p x" and "round_to p x \<le> x * (1 + 1 / 2 ^ p)"
proof -
  have "x * (1 - 1 / 2 ^ p) \<le> round_to p x \<and> round_to p x \<le> x * (1 + 1 / 2 ^ p)"
  proof (cases "x = 0")
    case True
    then show ?thesis by (simp add: round_to_def)
  next
    case False
    with assms have pos: "0 < x" by simp
    define e where "e = ilog2 x - (int p - 1)"
    define s where "s = x / pow2 e"
    have b: "pow2 (e + int p - 1) \<le> x" "x < pow2 (e + int p)"
      using ilog2_bounds [OF pos] by (simp_all add: e_def algebra_simps)
    have r: "round_to p x = of_int (rint s) * pow2 e"
      unfolding s_def by (rule round_to_pos_eq [OF pos b])
    have x: "x = s * pow2 e" using pow2_pos [of e] by (simp add: s_def)
    obtain q where q: "p = Suc q" using assms(2) by (cases p) auto
    have "pow2 (e + int p - 1) = pow2 e * 2 ^ q"
      using pow2_add [of e "int q"] by (simp add: q pow2_of_nat)
    then have "pow2 e * 2 ^ q \<le> x" using b(1) by simp
    then have h: "pow2 e / 2 \<le> x / 2 ^ p" by (simp add: q field_simps)
    have "(of_int (rint s) - 1 / 2) * pow2 e \<le> s * pow2 e"
      using rint_bounds(1) [of s] pow2_pos [of e] by (simp only: mult_le_cancel_right_pos)
    then have up: "round_to p x \<le> x + pow2 e / 2" by (simp add: r x [symmetric] algebra_simps)
    have "s * pow2 e \<le> (of_int (rint s) + 1 / 2) * pow2 e"
      using rint_bounds(2) [of s] pow2_pos [of e] by (simp only: mult_le_cancel_right_pos)
    then have lo: "x - pow2 e / 2 \<le> round_to p x" by (simp add: r x [symmetric] algebra_simps)
    have "x - x / 2 ^ p \<le> round_to p x" "round_to p x \<le> x + x / 2 ^ p"
      using up lo h by linarith+
    then show ?thesis by (simp add: algebra_simps)
  qed
  then show "x * (1 - 1 / 2 ^ p) \<le> round_to p x" and "round_to p x \<le> x * (1 + 1 / 2 ^ p)"
    by simp_all
qed

lemma rnd_error:
  assumes "0 \<le> x"
  shows "x * (1 - ulp_half) \<le> rnd x" and "rnd x \<le> x * (1 + ulp_half)"
  unfolding rnd_def ulp_half_def using round_to_error [OF assms, of 53] by simp_all

lemma rnd32_error:
  assumes "0 \<le> x"
  shows "x * (1 - ulp_half32) \<le> rnd32 x" and "rnd32 x \<le> x * (1 + ulp_half32)"
  unfolding rnd32_def ulp_half32_def using round_to_error [OF assms, of 24] by simp_all

lemma ulp_half_bounds: "0 < ulp_half" "ulp_half < 1"
  by (simp_all add: ulp_half_def)

lemma ulp_half32_bounds: "0 < ulp_half32" "ulp_half32 < 1" "ulp_half \<le> ulp_half32"
  by (simp_all add: ulp_half32_def ulp_half_def)

lemma rnd_nonneg: "0 \<le> x \<Longrightarrow> 0 \<le> rnd x"
  using rnd_error(1) [of x] ulp_half_bounds
  by (meson diff_ge_0_iff_ge less_imp_le mult_nonneg_nonneg order_trans)

section \<open>Propagation of rounding errors\<close>

lemma nearu_exact: "0 \<le> y \<Longrightarrow> nearu u 0 y y"
  by (simp add: nearu_def)

lemma nearu_nonneg: "0 < u \<Longrightarrow> u < 1 \<Longrightarrow> nearu u k x y \<Longrightarrow> 0 \<le> x"
  unfolding nearu_def
  by (meson diff_ge_0_iff_ge less_imp_le mult_nonneg_nonneg order_trans zero_le_power)

text \<open>One more operation whose result \<open>r\<close> is within the relative error \<open>u\<close> of \<open>x\<close>.\<close>

lemma nearu_step:
  assumes u: "0 < u" "u < 1" and n: "nearu u k x y"
    and r: "x * (1 - u) \<le> r" "r \<le> x * (1 + u)"
  shows "nearu u (Suc k) r y"
proof -
  have y0: "0 \<le> y" and lo: "y * (1 - u) ^ k \<le> x" and hi: "x \<le> y * (1 + u) ^ k"
    using n by (simp_all add: nearu_def)
  have a: "0 \<le> 1 - u" "0 \<le> 1 + u" using u by simp_all
  have "y * (1 - u) ^ k * (1 - u) \<le> x * (1 - u)"
    using lo a(1) by (rule mult_right_mono)
  also have "\<dots> \<le> r" by (rule r(1))
  finally have l: "y * (1 - u) ^ Suc k \<le> r" by (simp add: mult_ac)
  note r(2)
  also have "x * (1 + u) \<le> y * (1 + u) ^ k * (1 + u)"
    using hi a(2) by (rule mult_right_mono)
  finally have h: "r \<le> y * (1 + u) ^ Suc k" by (simp add: mult_ac)
  show ?thesis using y0 l h by (simp add: nearu_def)
qed

lemma nearu_mult:
  assumes u: "0 < u" "u < 1" and "nearu u j x y" and "nearu u k x' y'"
  shows "nearu u (j + k) (x * x') (y * y')"
proof -
  have a: "0 \<le> 1 - u" "0 \<le> 1 + u" using u by simp_all
  have y0: "0 \<le> y" "0 \<le> y'" using assms by (simp_all add: nearu_def)
  have x0: "0 \<le> x" "0 \<le> x'" using assms by (auto intro: nearu_nonneg)
  have "(y * (1 - u) ^ j) * (y' * (1 - u) ^ k) \<le> x * x'"
    using assms y0 a(1) x0 by (intro mult_mono) (simp_all add: nearu_def)
  then have l: "(y * y') * (1 - u) ^ (j + k) \<le> x * x'"
    by (simp add: power_add mult_ac)
  have "x * x' \<le> (y * (1 + u) ^ j) * (y' * (1 + u) ^ k)"
    using assms y0 a(2) x0 by (intro mult_mono) (simp_all add: nearu_def)
  then have h: "x * x' \<le> (y * y') * (1 + u) ^ (j + k)"
    by (simp add: power_add mult_ac)
  show ?thesis using y0 l h by (simp add: nearu_def)
qed

lemma nearu_add:
  assumes "nearu u k x y" and "nearu u k x' y'"
  shows "nearu u k (x + x') (y + y')"
  using assms by (simp add: nearu_def distrib_right add_mono)

lemma nearu_mono:
  assumes u: "0 < u" "u < 1" and "nearu u j x y" and "j \<le> k"
  shows "nearu u k x y"
proof -
  have y0: "0 \<le> y" using assms(3) by (simp add: nearu_def)
  have "(1 - u) ^ k \<le> (1 - u) ^ j"
    using assms(4) u by (intro power_decreasing) simp_all
  then have l: "y * (1 - u) ^ k \<le> y * (1 - u) ^ j"
    using y0 by (rule mult_left_mono)
  have "(1 + u) ^ j \<le> (1 + u) ^ k"
    using assms(4) u by (intro power_increasing) simp_all
  then have h: "y * (1 + u) ^ j \<le> y * (1 + u) ^ k"
    using y0 by (rule mult_left_mono)
  show ?thesis using assms(3) y0 l h by (auto simp: nearu_def)
qed

lemmas near_exact = nearu_exact [of _ ulp_half]
lemmas near_nonneg = nearu_nonneg [OF ulp_half_bounds]
lemmas near_mult = nearu_mult [OF ulp_half_bounds]
lemmas near_add = nearu_add [of ulp_half]
lemmas near_mono = nearu_mono [OF ulp_half_bounds]

lemma near_rnd:
  assumes "near k x y"
  shows "near (Suc k) (rnd x) y"
  using ulp_half_bounds assms rnd_error [OF near_nonneg [OF assms]] by (rule nearu_step)

lemma near_rnd_eq: "near k x y \<Longrightarrow> n = Suc k \<Longrightarrow> near n (rnd x) y"
  by (simp add: near_rnd)

lemma near_mult_eq:
  "near j x y \<Longrightarrow> near k x' y' \<Longrightarrow> n = j + k \<Longrightarrow> z = y * y' \<Longrightarrow> near n (x * x') z"
  by (simp add: near_mult)

lemma of_u8_nonneg: "0 \<le> of_u8 v"
  unfolding of_u8_def by (rule of_nat_0_le_iff)

lemma of_u8_le: "of_u8 v \<le> 255"
proof -
  have "unat v < 256" using unsigned_less [of v, where ?'a = nat] by simp
  then have "unat v \<le> 255" by simp
  then have "(of_nat (unat v) :: rat) \<le> of_nat 255" by (simp only: of_nat_le_iff)
  then show ?thesis by (simp only: of_u8_def of_nat_numeral)
qed

lemma near_inv255: "near 1 (fdiv 1 255) (1 / 255)"
  unfolding fdiv_def by (rule near_rnd_eq [OF near_exact]) simp_all

lemma near_scaled: "near 2 (fmul (of_u8 v) (fdiv 1 255)) (of_u8 v / 255)"
  unfolding fmul_def
  by (rule near_rnd_eq [OF near_mult_eq [OF near_exact [OF of_u8_nonneg] near_inv255 refl]])
    simp_all

text \<open>One masked, normalized sample times 255, before the rounding of the sum.\<close>

lemma near_term:
  "near 5 (fmul (fmul (of_u8 v) (fdiv 1 255)) (fmul (of_u8 m) (fdiv 1 255)) * 255)
          (of_u8 v * of_u8 m / 255)"
proof -
  let ?a = "fmul (of_u8 v) (fdiv 1 255)" and ?b = "fmul (of_u8 m) (fdiv 1 255)"
  have "near 4 (?a * ?b) (of_u8 v / 255 * (of_u8 m / 255))"
    by (rule near_mult_eq [OF near_scaled near_scaled]) simp_all
  then have "near 5 (fmul ?a ?b) (of_u8 v / 255 * (of_u8 m / 255))"
    unfolding fmul_def by (rule near_rnd_eq) simp
  moreover have "near 0 255 255" by (rule near_exact) simp
  ultimately show ?thesis by (rule near_mult_eq) simp_all
qed

lemma near_channel_sum:
  "near 8 (channel_sum f b mf mb) ((of_u8 f * of_u8 mf + of_u8 b * of_u8 mb) / 255)"
proof -
  let ?p = "fmul (fmul (of_u8 f) (fdiv 1 255)) (fmul (of_u8 mf) (fdiv 1 255))"
  let ?q = "fmul (fmul (of_u8 b) (fdiv 1 255)) (fmul (of_u8 mb) (fdiv 1 255))"
  let ?y = "(of_u8 f * of_u8 mf + of_u8 b * of_u8 mb) / 255"
  have "near 5 (?q * 255 + 0) (of_u8 b * of_u8 mb / 255)" using near_term [of b mb] by simp
  then have q: "near 6 (fma ?q 255 0) (of_u8 b * of_u8 mb / 255)"
    unfolding fma_def by (rule near_rnd_eq) simp
  have "near 6 (?p * 255) (of_u8 f * of_u8 mf / 255)"
    using near_term [of f mf] by (rule near_mono) simp
  then have "near 6 (?p * 255 + fma ?q 255 0) (of_u8 f * of_u8 mf / 255 + of_u8 b * of_u8 mb / 255)"
    using q by (rule near_add)
  then have "near 6 (?p * 255 + fma ?q 255 0) ?y" by (simp only: add_divide_distrib)
  then have "near 7 (fma ?p 255 (fma ?q 255 0)) ?y" unfolding fma_def by (rule near_rnd_eq) simp
  then have "near 8 (fma ?p 255 (fma ?q 255 0)) ?y" by (rule near_mono) simp
  then show ?thesis by (simp only: channel_sum_def add_weighted1_def)
qed

lemma pow8_bounds:
  "1 - 1 / 2 ^ 40 \<le> (1 - ulp_half) ^ 8" "(1 + ulp_half) ^ 8 \<le> 1 + 1 / 2 ^ 40"
  by (simp_all add: ulp_half_def power_divide)

text \<open>
  A value within eight roundings of \<open>N / 255\<close>, for a natural number \<open>N\<close> of the size
  met here, has the floor \<open>N div 255\<close> or, where 255 divides \<open>N\<close>, possibly one less.
\<close>

lemma floor_near:
  assumes n: "near 8 r (of_nat N / 255)" and N: "N \<le> 130050"
  shows "255 * \<lfloor>r\<rfloor> \<le> int N" and "int N \<le> 255 * \<lfloor>r\<rfloor> + 255"
proof -
  define y :: rat where "y = of_nat N / 255"
  have "(of_nat N :: rat) \<le> of_nat 130050" using N by (simp only: of_nat_le_iff)
  then have y510: "y \<le> 510" by (simp add: y_def)
  have y0: "0 \<le> y" by (simp add: y_def)
  have Ny: "of_nat N = 255 * y" by (simp add: y_def)
  have "y * (1 - 1 / 2 ^ 40) \<le> y * (1 - ulp_half) ^ 8"
    using pow8_bounds(1) y0 by (rule mult_left_mono)
  also have "\<dots> \<le> r" using n by (simp add: nearu_def y_def)
  finally have lo: "y - y / 2 ^ 40 \<le> r" by (simp add: algebra_simps)
  have "r \<le> y * (1 + ulp_half) ^ 8" using n by (simp add: nearu_def y_def)
  also have "\<dots> \<le> y * (1 + 1 / 2 ^ 40)"
    using pow8_bounds(2) y0 by (rule mult_left_mono)
  finally have hi: "r \<le> y + y / 2 ^ 40" by (simp add: algebra_simps)
  have lo': "y - y / 1099511627776 \<le> r" using lo by simp
  have hi': "r \<le> y + y / 1099511627776" using hi by simp
  have fl: "of_int \<lfloor>r\<rfloor> \<le> r" "r < of_int \<lfloor>r\<rfloor> + 1" by linarith+
  have "255 * (of_int \<lfloor>r\<rfloor> :: rat) < 255 * y + 1"
    using fl(1) hi' y510 y0 by linarith
  then have "255 * (of_int \<lfloor>r\<rfloor> :: rat) < of_nat N + 1"
    by (simp only: Ny)
  then have "(of_int (255 * \<lfloor>r\<rfloor>) :: rat) < of_int (int N + 1)" by simp
  then have "255 * \<lfloor>r\<rfloor> < int N + 1" by (simp only: of_int_less_iff)
  then show "255 * \<lfloor>r\<rfloor> \<le> int N" by simp
  have "255 * y - 1 < 255 * of_int \<lfloor>r\<rfloor> + 255"
    using fl(2) lo' y510 y0 by linarith
  then have "(of_nat N :: rat) - 1 < 255 * of_int \<lfloor>r\<rfloor> + 255"
    by (simp only: Ny)
  then have "(of_int (int N - 1) :: rat) < of_int (255 * \<lfloor>r\<rfloor> + 255)" by simp
  then have "int N - 1 < 255 * \<lfloor>r\<rfloor> + 255" by (simp only: of_int_less_iff)
  then show "int N \<le> 255 * \<lfloor>r\<rfloor> + 255" by simp
qed

section \<open>The compositor on broadcast inputs\<close>

lemma np_scale_alt: "np_scale a c = map (map (scale_px c)) a"
  by (simp add: np_scale_def)

lemma is_imageD:
  assumes "is_image h w a"
  shows "length a = h" and "0 < h" and "0 < w" and "height a = h" and "width a = w"
    and "\<And>i. i < h \<Longrightarrow> length (a ! i) = w"
proof -
  show l: "length a = h" and h: "0 < h" and "0 < w" using assms by (simp_all add: is_image_def)
  show "height a = h" using l by (simp add: height_def)
  have all: "\<And>r. r \<in> set a \<Longrightarrow> length r = w"
    using assms by (simp add: is_image_def list_all_iff)
  show "\<And>i. i < h \<Longrightarrow> length (a ! i) = w" using all l by simp
  show "width a = w"
  proof (cases a)
    case Nil
    then show ?thesis using l h by simp
  next
    case (Cons r rs)
    then show ?thesis using all by (simp add: width_def)
  qed
qed

lemma is_imageI:
  assumes "0 < h" and "0 < w" and "length a = h" and "\<And>i. i < h \<Longrightarrow> length (a ! i) = w"
  shows "is_image h w a"
  using assms by (auto simp: is_image_def list_all_length)

lemma height_map [simp]: "height (map f a) = height a"
  by (simp add: height_def)

lemma width_map_map [simp]: "width (map (map f) a) = width a"
  by (cases a) (simp_all add: width_def)

lemma is_image_map_map: "is_image h w a \<Longrightarrow> is_image h w (map (map f) a)"
  by (simp add: is_image_def list_all_iff)

lemma is_image_table: "0 < h \<Longrightarrow> 0 < w \<Longrightarrow> is_image h w (map (\<lambda>i. map (f i) [0..<w]) [0..<h])"
  by (simp add: is_image_def list_all_iff)

lemma broadcast_len_same [simp]: "broadcast_len n n = Some n"
  by (simp add: broadcast_len_def)

lemma broadcast_lenD:
  assumes "broadcast_len m n = Some k"
  shows "m = k \<or> m = 1" and "n = k \<or> n = 1" and "0 < m \<Longrightarrow> 0 < n \<Longrightarrow> 0 < k"
  using assms by (auto simp: broadcast_len_def split: if_splits)

lemma bsel_less: "0 < n \<Longrightarrow> n = k \<or> n = 1 \<Longrightarrow> i < k \<Longrightarrow> bsel n i < n"
  by (auto simp: bsel_def)

lemma bsel_same: "i < n \<Longrightarrow> bsel n i = i"
  by (auto simp: bsel_def)

lemma stretch_nth:
  assumes "length xs = n \<or> length xs = 1" and "i < n"
  shows "stretch n xs ! i = xs ! bsel (length xs) i"
proof (cases "length xs = n")
  case True
  then show ?thesis using assms(2) by (simp add: stretch_def bsel_same)
next
  case False
  then have l: "length xs = 1" using assms(1) by simp
  then have "hd xs = xs ! 0" by (cases xs) simp_all
  then show ?thesis using False l assms(2) by (simp add: stretch_def bsel_def)
qed

lemma length_stretch: "length (stretch n xs) = n"
  by (simp add: stretch_def)

lemma stretch_image:
  assumes a: "is_image h w a" and h: "h = H \<or> h = 1" and w: "w = W \<or> w = 1"
  shows "stretch H (map (stretch W) a) = map (\<lambda>i. map (\<lambda>j. a ! bsel h i ! bsel w j) [0..<W]) [0..<H]"
proof (rule nth_equalityI)
  show "length (stretch H (map (stretch W) a))
      = length (map (\<lambda>i. map (\<lambda>j. a ! bsel h i ! bsel w j) [0..<W]) [0..<H])"
    by (simp add: length_stretch)
next
  fix i assume "i < length (stretch H (map (stretch W) a))"
  then have i: "i < H" by (simp add: length_stretch)
  have la: "length a = h" "0 < h" using a by (simp_all add: is_imageD)
  have bi: "bsel h i < h" using la(2) h i by (rule bsel_less)
  have row: "stretch H (map (stretch W) a) ! i = stretch W (a ! bsel h i)"
    using stretch_nth [of "map (stretch W) a" H i] h i la bi by simp
  have lr: "length (a ! bsel h i) = w" using a bi by (simp add: is_imageD)
  have "stretch W (a ! bsel h i) = map (\<lambda>j. a ! bsel h i ! bsel w j) [0..<W]"
    using lr w by (intro nth_equalityI) (simp_all add: length_stretch stretch_nth)
  then show "stretch H (map (stretch W) a) ! i
      = map (\<lambda>i. map (\<lambda>j. a ! bsel h i ! bsel w j) [0..<W]) [0..<H] ! i"
    using row i by simp
qed

lemma np_multiply_broadcast:
  assumes a: "is_image h w a" and b: "is_image h' w' b"
    and H: "broadcast_len h h' = Some H" and W: "broadcast_len w w' = Some W"
  shows "np_multiply a b
    = Inr (map (\<lambda>i. map (\<lambda>j. fmul3 (bpixel a i j) (bpixel b i j)) [0..<W]) [0..<H])"
proof -
  have d: "height a = h" "width a = w" "height b = h'" "width b = w'"
    using a b by (simp_all add: is_imageD)
  have sa: "stretch H (map (stretch W) a) = map (\<lambda>i. map (\<lambda>j. bpixel a i j) [0..<W]) [0..<H]"
    unfolding bpixel_def d using a broadcast_lenD(1) [OF H] broadcast_lenD(1) [OF W]
    by (rule stretch_image)
  have sb: "stretch H (map (stretch W) b) = map (\<lambda>i. map (\<lambda>j. bpixel b i j) [0..<W]) [0..<H]"
    unfolding bpixel_def d using b broadcast_lenD(2) [OF H] broadcast_lenD(2) [OF W]
    by (rule stretch_image)
  have "map2 (map2 fmul3) (map (\<lambda>i. map (\<lambda>j. bpixel a i j) [0..<W]) [0..<H])
          (map (\<lambda>i. map (\<lambda>j. bpixel b i j) [0..<W]) [0..<H])
      = map (\<lambda>i. map (\<lambda>j. fmul3 (bpixel a i j) (bpixel b i j)) [0..<W]) [0..<H]"
    by (intro nth_equalityI) simp_all
  then show ?thesis by (simp add: np_multiply_def d H W sa sb)
qed

lemma np_multiply_unbroadcastable:
  assumes "broadcast_shape a b = None"
  shows "np_multiply a b = Inl ValueError"
  using assms by (auto simp: np_multiply_def broadcast_shape_def split: option.splits)

lemma broadcast_shape_Some:
  assumes "is_image h w a" and "is_image h' w' b"
  shows "broadcast_shape a b = Some (H, W)
    \<longleftrightarrow> broadcast_len h h' = Some H \<and> broadcast_len w w' = Some W"
  using assms by (auto simp: broadcast_shape_def is_imageD(4,5) split: option.splits)

lemma broadcast_shape_map [simp]:
  "broadcast_shape (map (map f) a) (map (map g) b) = broadcast_shape a b"
  by (simp add: broadcast_shape_def)

lemma bpixel_map_map:
  assumes "is_image h w a" and "h = H \<or> h = 1" and "w = W \<or> w = 1" and "i < H" and "j < W"
  shows "bpixel (map (map f) a) i j = f (bpixel a i j)"
proof -
  have bi: "bsel h i < h" using is_imageD(2) [OF assms(1)] assms(2,4) by (rule bsel_less)
  have bj: "bsel w j < w" using is_imageD(3) [OF assms(1)] assms(3,5) by (rule bsel_less)
  show ?thesis using bi bj assms(1) by (simp add: bpixel_def is_imageD)
qed

lemma blend_px_alt:
  "add_weighted3 255 255 0 (fmul3 (scale_px (fdiv 1 255) f) (scale_px (fdiv 1 255) m))
     (fmul3 (scale_px (fdiv 1 255) b)
        (scale_px (fdiv 1 255) (255 - bgr2gray m, 255 - bgr2gray m, 255 - bgr2gray m)))
   = blend_px f b m"
  by (cases f; cases b; cases m)
    (simp add: blend_px_def channel_sum_def add_weighted3_def fmul3_def scale_px_def)

text \<open>The background mask of \<^verbatim>\<open>overlay_image\<close> and the two masked products.\<close>

lemma masked_products:
  assumes F: "is_image fh fw F" and M: "is_image mh mw M"
  shows "cvtColor_BGR2GRAY M = Inr (map (map bgr2gray) M)"
    and "cvtColor_GRAY2BGR (rsub255 (map (map bgr2gray) M))
      = Inr (map (map (\<lambda>p. (255 - bgr2gray p, 255 - bgr2gray p, 255 - bgr2gray p))) M)"
    and "broadcast_shape F M = None \<Longrightarrow>
      np_multiply (np_scale F c) (np_scale M c) = Inl ValueError"
    and "broadcast_shape F M = Some (H, W) \<Longrightarrow>
      np_multiply (np_scale F c) (np_scale M c)
        = Inr (map (\<lambda>i. map (\<lambda>j. fmul3 (scale_px c (bpixel F i j)) (scale_px c (bpixel M i j)))
                 [0..<W]) [0..<H])"
proof -
  have hw: "height M = mh" "width M = mw" "0 < mh" "0 < mw" using M by (simp_all add: is_imageD)
  show "cvtColor_BGR2GRAY M = Inr (map (map bgr2gray) M)"
    using hw by (simp add: cvtColor_BGR2GRAY_def)
  show "cvtColor_GRAY2BGR (rsub255 (map (map bgr2gray) M))
      = Inr (map (map (\<lambda>p. (255 - bgr2gray p, 255 - bgr2gray p, 255 - bgr2gray p))) M)"
    using hw by (simp add: cvtColor_GRAY2BGR_def rsub255_def comp_def)
  show "np_multiply (np_scale F c) (np_scale M c) = Inl ValueError"
    if "broadcast_shape F M = None"
    using that by (intro np_multiply_unbroadcastable) (simp add: np_scale_alt)
  show "np_multiply (np_scale F c) (np_scale M c)
        = Inr (map (\<lambda>i. map (\<lambda>j. fmul3 (scale_px c (bpixel F i j)) (scale_px c (bpixel M i j)))
                 [0..<W]) [0..<H])"
    if s: "broadcast_shape F M = Some (H, W)"
  proof -
    have HW: "broadcast_len fh mh = Some H" "broadcast_len fw mw = Some W"
      using s broadcast_shape_Some [OF F M] by simp_all
    have "np_multiply (np_scale F c) (np_scale M c)
        = Inr (map (\<lambda>i. map (\<lambda>j. fmul3 (bpixel (np_scale F c) i j) (bpixel (np_scale M c) i j))
                 [0..<W]) [0..<H])"
      using F M HW unfolding np_scale_alt
      by (intro np_multiply_broadcast [of fh fw _ mh mw]) (simp_all add: is_image_map_map)
    moreover have "map (\<lambda>i. map (\<lambda>j. fmul3 (bpixel (np_scale F c) i j) (bpixel (np_scale M c) i j))
                 [0..<W]) [0..<H]
        = map (\<lambda>i. map (\<lambda>j. fmul3 (scale_px c (bpixel F i j)) (scale_px c (bpixel M i j)))
                 [0..<W]) [0..<H]"
      unfolding np_scale_alt
      using bpixel_map_map [OF F broadcast_lenD(1) [OF HW(1)] broadcast_lenD(1) [OF HW(2)],
          where f = "scale_px c"]
        bpixel_map_map [OF M broadcast_lenD(2) [OF HW(1)] broadcast_lenD(2) [OF HW(2)],
          where f = "scale_px c"]
      by (intro map_cong refl) simp
    ultimately show ?thesis by simp
  qed
qed

lemma broadcast_shape_map_right [simp]:
  "broadcast_shape a (map (map g) b) = broadcast_shape a b"
  by (simp add: broadcast_shape_def)

lemma broadcast_shape_pos:
  assumes "is_image h w a" and "is_image h' w' b" and "broadcast_shape a b = Some (H, W)"
  shows "0 < H" and "0 < W" and "h = H \<or> h = 1" and "w = W \<or> w = 1"
    and "h' = H \<or> h' = 1" and "w' = W \<or> w' = 1"
proof -
  have HW: "broadcast_len h h' = Some H" "broadcast_len w w' = Some W"
    using assms(3) broadcast_shape_Some [OF assms(1,2)] by simp_all
  show "0 < H" using broadcast_lenD(3) [OF HW(1)] assms(1,2) by (simp add: is_imageD)
  show "0 < W" using broadcast_lenD(3) [OF HW(2)] assms(1,2) by (simp add: is_imageD)
  show "h = H \<or> h = 1" "h' = H \<or> h' = 1" using broadcast_lenD(1,2) [OF HW(1)] by simp_all
  show "w = W \<or> w = 1" "w' = W \<or> w' = 1" using broadcast_lenD(1,2) [OF HW(2)] by simp_all
qed

lemma height_table [simp]: "height (map f [0..<h]) = h"
  by (simp add: height_def)

lemma width_table: "0 < h \<Longrightarrow> width (map (\<lambda>i. map (f i) [0..<w]) [0..<h]) = w"
  by (simp add: width_def upt_conv_Cons)

lemma weighted_sum_value_error:
  assumes F: "is_image fh fw F" and B: "is_image bh bw B" and M: "is_image mh mw M"
    and n: "broadcast_shape F M = None \<or> broadcast_shape B M = None"
  shows "weighted_sum F B M = Inl ValueError"
proof -
  let ?c = "fdiv 1 255"
  let ?G = "map (map (\<lambda>p. (255 - bgr2gray p, 255 - bgr2gray p, 255 - bgr2gray p))) M"
  have G: "is_image mh mw ?G" using M by (rule is_image_map_map)
  note g = masked_products(1,2) [OF F M]
  show ?thesis
  proof (cases "broadcast_shape F M")
    case None
    then show ?thesis
      unfolding weighted_sum_def by (simp add: g masked_products(3) [OF F M])
  next
    case (Some s)
    obtain H W where s: "s = (H, W)" by (cases s)
    have "broadcast_shape B ?G = None" using n Some by simp
    then have "np_multiply (np_scale B ?c) (np_scale ?G ?c) = Inl ValueError"
      by (rule masked_products(3) [OF B G])
    then show ?thesis
      unfolding weighted_sum_def using Some s by (simp add: g masked_products(4) [OF F M])
  qed
qed

lemma weighted_sum_tables:
  assumes F: "is_image fh fw F" and B: "is_image bh bw B" and M: "is_image mh mw M"
    and s: "broadcast_shape F M = Some (H, W)" and t: "broadcast_shape B M = Some (H', W')"
  shows "weighted_sum F B M =
    addWeighted
      (map (\<lambda>i. map (\<lambda>j. fmul3 (scale_px (fdiv 1 255) (bpixel F i j))
                             (scale_px (fdiv 1 255) (bpixel M i j))) [0..<W]) [0..<H]) 255
      (map (\<lambda>i. map (\<lambda>j. fmul3 (scale_px (fdiv 1 255) (bpixel B i j))
         (scale_px (fdiv 1 255) (255 - bgr2gray (bpixel M i j), 255 - bgr2gray (bpixel M i j),
            255 - bgr2gray (bpixel M i j)))) [0..<W']) [0..<H']) 255 0"
proof -
  let ?c = "fdiv 1 255"
  let ?g = "\<lambda>p. (255 - bgr2gray p, 255 - bgr2gray p, 255 - bgr2gray p)"
  let ?G = "map (map ?g) M"
  have G: "is_image mh mw ?G" using M by (rule is_image_map_map)
  note g = masked_products(1,2) [OF F M]
  have t': "broadcast_shape B ?G = Some (H', W')" using t by simp
  have e: "map (\<lambda>i. map (\<lambda>j. fmul3 (scale_px ?c (bpixel B i j)) (scale_px ?c (bpixel ?G i j)))
            [0..<W']) [0..<H']
      = map (\<lambda>i. map (\<lambda>j. fmul3 (scale_px ?c (bpixel B i j)) (scale_px ?c (?g (bpixel M i j))))
            [0..<W']) [0..<H']"
    using bpixel_map_map [OF M broadcast_shape_pos(5,6) [OF B M t], where f = ?g]
    by (intro map_cong refl) simp
  have "weighted_sum F B M = addWeighted
      (map (\<lambda>i. map (\<lambda>j. fmul3 (scale_px ?c (bpixel F i j)) (scale_px ?c (bpixel M i j)))
         [0..<W]) [0..<H]) 255
      (map (\<lambda>i. map (\<lambda>j. fmul3 (scale_px ?c (bpixel B i j)) (scale_px ?c (bpixel ?G i j)))
            [0..<W']) [0..<H']) 255 0"
    unfolding weighted_sum_def
    by (simp add: g masked_products(4) [OF F M s] masked_products(4) [OF B G t'])
  then show ?thesis by (simp only: e)
qed

lemma weighted_sum_size_error:
  assumes F: "is_image fh fw F" and B: "is_image bh bw B" and M: "is_image mh mw M"
    and s: "broadcast_shape F M = Some s" and t: "broadcast_shape B M = Some t" and d: "s \<noteq> t"
  shows "weighted_sum F B M = Inl CvError"
proof -
  obtain H W where s': "s = (H, W)" by (cases s)
  obtain H' W' where t': "t = (H', W')" by (cases t)
  have p: "0 < H" "0 < H'"
    using broadcast_shape_pos(1) [OF F M] broadcast_shape_pos(1) [OF B M] s t s' t' by simp_all
  show ?thesis
    using d s' t' p
    by (simp add: weighted_sum_tables [OF F B M s [unfolded s'] t [unfolded t']]
        addWeighted_def width_table)
qed

lemma weighted_sum_broadcast:
  assumes F: "is_image fh fw F" and B: "is_image bh bw B" and M: "is_image mh mw M"
    and s: "broadcast_shape F M = Some (H, W)" and t: "broadcast_shape B M = Some (H, W)"
  shows "weighted_sum F B M
    = Inr (map (\<lambda>i. map (\<lambda>j. blend_px (bpixel F i j) (bpixel B i j) (bpixel M i j))
             [0..<W]) [0..<H])"
proof -
  have p: "0 < H" using broadcast_shape_pos(1) [OF F M s] .
  have "map2 (map2 (add_weighted3 255 255 0))
      (map (\<lambda>i. map (\<lambda>j. fmul3 (scale_px (fdiv 1 255) (bpixel F i j))
                             (scale_px (fdiv 1 255) (bpixel M i j))) [0..<W]) [0..<H])
      (map (\<lambda>i. map (\<lambda>j. fmul3 (scale_px (fdiv 1 255) (bpixel B i j))
         (scale_px (fdiv 1 255) (255 - bgr2gray (bpixel M i j), 255 - bgr2gray (bpixel M i j),
            255 - bgr2gray (bpixel M i j)))) [0..<W]) [0..<H])
    = map (\<lambda>i. map (\<lambda>j. blend_px (bpixel F i j) (bpixel B i j) (bpixel M i j))
             [0..<W]) [0..<H]"
    by (intro nth_equalityI) (simp_all add: blend_px_alt)
  then show ?thesis
    using p by (simp add: weighted_sum_tables [OF F B M s t] addWeighted_def width_table)
qed

text \<open>The result of \<^verbatim>\<open>overlay_image\<close>, for every well-formed trio of inputs.\<close>

lemma overlay_image_broadcast:
  assumes F: "is_image fh fw F" and B: "is_image bh bw B" and M: "is_image mh mw M"
    and s: "broadcast_shape F M = Some (H, W)" and t: "broadcast_shape B M = Some (H, W)"
  shows "overlay_image F B M
    = Inr (map (\<lambda>i. map (\<lambda>j. uint8_px (blend_px (bpixel F i j) (bpixel B i j) (bpixel M i j)))
             [0..<W]) [0..<H])"
  by (simp add: overlay_image_def weighted_sum_broadcast [OF assms] np_uint8_def comp_def)

lemma broadcast_shape_same: "is_image h w a \<Longrightarrow> is_image h w b \<Longrightarrow> broadcast_shape a b = Some (h, w)"
  by (simp add: broadcast_shape_def is_imageD(4,5))

lemma bpixel_same: "is_image h w a \<Longrightarrow> i < h \<Longrightarrow> j < w \<Longrightarrow> bpixel a i j = a ! i ! j"
  by (simp add: bpixel_def is_imageD(4,5) bsel_same)

lemma overlay_image_same_shape:
  assumes F: "is_image h w F" and B: "is_image h w B" and M: "is_image h w M"
  shows "\<exists>out. overlay_image F B M = Inr out \<and> is_image h w out \<and>
    (\<forall>i < h. \<forall>j < w. out ! i ! j = uint8_px (blend_px (F ! i ! j) (B ! i ! j) (M ! i ! j)))"
proof -
  let ?out = "map (\<lambda>i. map (\<lambda>j. uint8_px (blend_px (bpixel F i j) (bpixel B i j) (bpixel M i j)))
             [0..<w]) [0..<h]"
  have "overlay_image F B M = Inr ?out"
    using F B M broadcast_shape_same [OF F M] broadcast_shape_same [OF B M]
    by (rule overlay_image_broadcast)
  moreover have "is_image h w ?out"
    using F by (intro is_image_table) (simp_all add: is_imageD)
  moreover have "\<forall>i < h. \<forall>j < w.
      ?out ! i ! j = uint8_px (blend_px (F ! i ! j) (B ! i ! j) (M ! i ! j))"
    using F B M by (simp add: bpixel_same)
  ultimately show ?thesis by blast
qed

section \<open>Solid frames and sample evaluations\<close>

lemma is_image_solid: "0 < h \<Longrightarrow> 0 < w \<Longrightarrow> is_image h w (solid h w p)"
  by (simp add: is_image_def solid_def list_all_iff)

lemma table_const: "map (\<lambda>i. map (\<lambda>j. c) [0..<w]) [0..<h] = solid h w c"
  by (simp add: solid_def map_replicate_const)

lemma bpixel_solid:
  assumes "0 < h" and "0 < w" and "h = H \<or> h = 1" and "w = W \<or> w = 1" and "i < H" and "j < W"
  shows "bpixel (solid h w p) i j = p"
proof -
  have "bsel h i < h" "bsel w j < w" using assms by (simp_all add: bsel_less)
  moreover have "height (solid h w p) = h" "width (solid h w p) = w"
    using is_imageD(4,5) [OF is_image_solid [OF assms(1,2), of p]] by simp_all
  ultimately show ?thesis by (simp add: bpixel_def) (simp add: solid_def)
qed

lemma broadcast_shape_solid:
  assumes "0 < h" and "0 < w" and "0 < h'" and "0 < w'"
  shows "broadcast_shape (solid h w p) (solid h' w' q) = Some (H, W)
    \<longleftrightarrow> broadcast_len h h' = Some H \<and> broadcast_len w w' = Some W"
  using assms by (intro broadcast_shape_Some is_image_solid)

lemma weighted_sum_solids:
  assumes p: "0 < fh" "0 < fw" "0 < bh" "0 < bw" "0 < mh" "0 < mw"
    and s: "broadcast_len fh mh = Some H" "broadcast_len fw mw = Some W"
    and t: "broadcast_len bh mh = Some H" "broadcast_len bw mw = Some W"
  shows "weighted_sum (solid fh fw f) (solid bh bw b) (solid mh mw m)
    = Inr (solid H W (blend_px f b m))"
proof -
  let ?F = "solid fh fw f" and ?B = "solid bh bw b" and ?M = "solid mh mw m"
  have F: "is_image fh fw ?F" and B: "is_image bh bw ?B" and M: "is_image mh mw ?M"
    using p by (simp_all add: is_image_solid)
  have s': "broadcast_shape ?F ?M = Some (H, W)" and t': "broadcast_shape ?B ?M = Some (H, W)"
    using p s t by (simp_all add: broadcast_shape_solid)
  have "map (\<lambda>i. map (\<lambda>j. blend_px (bpixel ?F i j) (bpixel ?B i j) (bpixel ?M i j))
             [0..<W]) [0..<H]
      = map (\<lambda>i. map (\<lambda>j. blend_px f b m) [0..<W]) [0..<H]"
    using p broadcast_lenD(1,2) [OF s(1)] broadcast_lenD(1,2) [OF s(2)]
      broadcast_lenD(1) [OF t(1)] broadcast_lenD(1) [OF t(2)]
    by (intro map_cong refl) (simp add: bpixel_solid)
  then show ?thesis
    by (simp only: weighted_sum_broadcast [OF F B M s' t'] table_const)
qed

lemma np_uint8_solid: "np_uint8 (solid h w p) = solid h w (uint8_px p)"
  by (simp add: np_uint8_def solid_def)

lemma weighted_sum_solid:
  assumes "0 < h" and "0 < w"
  shows "weighted_sum (solid h w f) (solid h w b) (solid h w m) = Inr (solid h w (blend_px f b m))"
  using assms by (intro weighted_sum_solids) simp_all

lemma overlay_image_solid:
  assumes "0 < h" and "0 < w"
  shows "overlay_image (solid h w f) (solid h w b) (solid h w m)
    = Inr (solid h w (uint8_px (blend_px f b m)))"
  by (simp add: overlay_image_def weighted_sum_solid [OF assms] np_uint8_solid)

lemma bgr2gray_gray: "bgr2gray (v, v, v) = v"
proof -
  have "3735 * unat v + 19235 * unat v + 9798 * unat v + 16384 = unat v * 32768 + 16384"
    by simp
  then have "(3735 * unat v + 19235 * unat v + 9798 * unat v + 16384) div 32768 = unat v"
    by simp
  then show ?thesis by (simp add: bgr2gray_def)
qed

lemma channel_sum_33_white: "channel_sum 33 255 255 0 = 4644337115725823 / 140737488355328"
proof -
  have s1: "fmul 33 (282578800148737 / 72057594037927936) = 291409387653385 / 2251799813685248"
    unfolding fmul_def
    by (subst rnd_pos_eq [where e = "-55"]) (simp_all add: rnd_eval)
  have s2: "fmul 255 (282578800148737 / 72057594037927936) = 1"
    unfolding fmul_def
    by (subst rnd_pos_eq [where e = "-53"]) (simp_all add: rnd_eval)
  have s3: "fmul (291409387653385 / 2251799813685248) 1 = 291409387653385 / 2251799813685248"
    unfolding fmul_def
    by (subst rnd_pos_eq [where e = "-55"]) (simp_all add: rnd_eval)
  have s4: "fmul 0 (282578800148737 / 72057594037927936) = 0"
    by (simp add: fmul_def rnd_zero)
  have s5: "fmul 1 0 = 0"
    by (simp add: fmul_def rnd_zero)
  have s6: "fma 0 255 0 = 0"
    by (simp add: fma_def rnd_zero)
  have s7: "fma (291409387653385 / 2251799813685248) 255 0 = 4644337115725823 / 140737488355328"
    unfolding fma_def
    by (subst rnd_pos_eq [where e = "-47"]) (simp_all add: rnd_eval)
  have u: "of_u8 0 = 0" "of_u8 33 = 33" "of_u8 255 = 255"
    by (simp_all add: of_u8_def)
  show ?thesis
    by (simp only: channel_sum_def add_weighted1_def u inv255 s1 s2 s3 s4 s5 s6 s7)
qed

lemma channel_sum_33_white0: "channel_sum 33 0 255 0 = 4644337115725823 / 140737488355328"
proof -
  have s1: "fmul 33 (282578800148737 / 72057594037927936) = 291409387653385 / 2251799813685248"
    unfolding fmul_def
    by (subst rnd_pos_eq [where e = "-55"]) (simp_all add: rnd_eval)
  have s2: "fmul 255 (282578800148737 / 72057594037927936) = 1"
    unfolding fmul_def
    by (subst rnd_pos_eq [where e = "-53"]) (simp_all add: rnd_eval)
  have s3: "fmul (291409387653385 / 2251799813685248) 1 = 291409387653385 / 2251799813685248"
    unfolding fmul_def
    by (subst rnd_pos_eq [where e = "-55"]) (simp_all add: rnd_eval)
  have s4: "fmul 0 (282578800148737 / 72057594037927936) = 0"
    by (simp add: fmul_def rnd_zero)
  have s5: "fmul 0 0 = 0"
    by (simp add: fmul_def rnd_zero)
  have s6: "fma 0 255 0 = 0"
    by (simp add: fma_def rnd_zero)
  have s7: "fma (291409387653385 / 2251799813685248) 255 0 = 4644337115725823 / 140737488355328"
    unfolding fma_def
    by (subst rnd_pos_eq [where e = "-47"]) (simp_all add: rnd_eval)
  have u: "of_u8 0 = 0" "of_u8 33 = 33" "of_u8 255 = 255"
    by (simp_all add: of_u8_def)
  show ?thesis
    by (simp only: channel_sum_def add_weighted1_def u inv255 s1 s2 s3 s4 s5 s6 s7)
qed

lemma channel_sum_33_black0: "channel_sum 0 33 0 255 = 4644337115725823 / 140737488355328"
proof -
  have s1: "fmul 0 (282578800148737 / 72057594037927936) = 0"
    by (simp add: fmul_def rnd_zero)
  have s2: "fmul 0 0 = 0"
    by (simp add: fmul_def rnd_zero)
  have s3: "fmul 33 (282578800148737 / 72057594037927936) = 291409387653385 / 2251799813685248"
    unfolding fmul_def
    by (subst rnd_pos_eq [where e = "-55"]) (simp_all add: rnd_eval)
  have s4: "fmul 255 (282578800148737 / 72057594037927936) = 1"
    unfolding fmul_def
    by (subst rnd_pos_eq [where e = "-53"]) (simp_all add: rnd_eval)
  have s5: "fmul (291409387653385 / 2251799813685248) 1 = 291409387653385 / 2251799813685248"
    unfolding fmul_def
    by (subst rnd_pos_eq [where e = "-55"]) (simp_all add: rnd_eval)
  have s6: "fma (291409387653385 / 2251799813685248) 255 0 = 4644337115725823 / 140737488355328"
    unfolding fma_def
    by (subst rnd_pos_eq [where e = "-47"]) (simp_all add: rnd_eval)
  have s7: "fma 0 255 (4644337115725823 / 140737488355328) = 4644337115725823 / 140737488355328"
    unfolding fma_def
    by (subst rnd_pos_eq [where e = "-47"]) (simp_all add: rnd_eval)
  have u: "of_u8 0 = 0" "of_u8 33 = 33" "of_u8 255 = 255"
    by (simp_all add: of_u8_def)
  show ?thesis
    by (simp only: channel_sum_def add_weighted1_def u inv255 s1 s2 s3 s4 s5 s6 s7)
qed

lemma channel_sum_33_black: "channel_sum 255 33 0 255 = 4644337115725823 / 140737488355328"
proof -
  have s1: "fmul 255 (282578800148737 / 72057594037927936) = 1"
    unfolding fmul_def
    by (subst rnd_pos_eq [where e = "-53"]) (simp_all add: rnd_eval)
  have s2: "fmul 0 (282578800148737 / 72057594037927936) = 0"
    by (simp add: fmul_def rnd_zero)
  have s3: "fmul 1 0 = 0"
    by (simp add: fmul_def rnd_zero)
  have s4: "fmul 33 (282578800148737 / 72057594037927936) = 291409387653385 / 2251799813685248"
    unfolding fmul_def
    by (subst rnd_pos_eq [where e = "-55"]) (simp_all add: rnd_eval)
  have s5: "fmul (291409387653385 / 2251799813685248) 1 = 291409387653385 / 2251799813685248"
    unfolding fmul_def
    by (subst rnd_pos_eq [where e = "-55"]) (simp_all add: rnd_eval)
  have s6: "fma (291409387653385 / 2251799813685248) 255 0 = 4644337115725823 / 140737488355328"
    unfolding fma_def
    by (subst rnd_pos_eq [where e = "-47"]) (simp_all add: rnd_eval)
  have s7: "fma 0 255 (4644337115725823 / 140737488355328) = 4644337115725823 / 140737488355328"
    unfolding fma_def
    by (subst rnd_pos_eq [where e = "-47"]) (simp_all add: rnd_eval)
  have u: "of_u8 0 = 0" "of_u8 33 = 33" "of_u8 255 = 255"
    by (simp_all add: of_u8_def)
  show ?thesis
    by (simp only: channel_sum_def add_weighted1_def u inv255 s1 s2 s3 s4 s5 s6 s7)
qed

lemma to_uint8_33_slip: "to_uint8 (4644337115725823 / 140737488355328) = 32"
  by (simp add: to_uint8_def trunc_def floor_numeral_div)

section \<open>White and black masks\<close>

text \<open>
  Claim C2: with an entirely white mask the composite equals the foreground frame, for
  any background.  The code does not do this: the foreground sample 33 goes through
  \<open>33 * (1 / 255.0) * 1.0 * 255.0\<close>, which is \<open>32.99999999999999\<close> in binary64, and
  \<^verbatim>\<open>np.uint8\<close> drops the fraction.  On a 4 by 4 frame of the gray level 33 over a blue
  background the white mask returns the gray level 32.
\<close>

theorem white_mask_darkens_33:
  "overlay_image (solid 4 4 (33, 33, 33)) (solid 4 4 (255, 0, 0)) (solid 4 4 white)
     = Inr (solid 4 4 (32, 32, 32))"
  by (simp add: overlay_image_solid white_def blend_px_def bgr2gray_gray uint8_px_def
      channel_sum_33_white channel_sum_33_white0 to_uint8_33_slip)

text \<open>
  Claim C3: with an entirely black mask the composite equals the background frame.
  The same conversion loses one level of the background sample 33: a 4 by 4 background
  of the gray level 33 under a red foreground and a black mask comes out as 32.
\<close>

theorem black_mask_darkens_33:
  "overlay_image (solid 4 4 (0, 0, 255)) (solid 4 4 (33, 33, 33)) (solid 4 4 black)
     = Inr (solid 4 4 (32, 32, 32))"
  by (simp add: overlay_image_solid black_def blend_px_def bgr2gray_gray uint8_px_def
      channel_sum_33_black channel_sum_33_black0 to_uint8_33_slip)

section \<open>One output sample\<close>

lemma unat_le_255: "unat (v :: u8) \<le> 255"
  using unsigned_less [of v, where ?'a = nat] by simp

lemma unat_complement: "unat (255 - v :: u8) = 255 - unat v"
proof -
  have "v \<le> 255" using unat_le_255 [of v] by (simp add: word_le_nat_alt)
  then show ?thesis by (simp add: unat_sub)
qed

lemma of_u8_complement: "of_u8 (255 - v) = 255 - of_u8 v"
  using unat_le_255 [of v] by (simp add: of_u8_def unat_complement of_nat_diff)

lemma channel_sum_nonneg: "0 \<le> channel_sum f b mf mb"
  using near_channel_sum [of f b mf mb] by (rule near_nonneg)

lemma uint_to_uint8: "uint (to_uint8 x) = trunc x mod 256"
  by (simp add: to_uint8_def uint_word_of_int)

lemma to_uint8_numeral: "to_uint8 (numeral n) = numeral n"
  by (simp add: to_uint8_def trunc_def)

text \<open>
  The double handed to \<^verbatim>\<open>np.uint8\<close> lies so close to the exact quotient \<open>N / 255\<close> that
  its integer part is the quotient's, unless the quotient is an integer: then the
  integer part is the quotient or one less.
\<close>

lemma channel_floor:
  fixes f b mf mb :: u8
  defines "N \<equiv> unat mf * unat f + unat mb * unat b"
  defines "r \<equiv> channel_sum f b mf mb"
  shows "0 \<le> \<lfloor>r\<rfloor>" and "255 * \<lfloor>r\<rfloor> \<le> int N" and "int N \<le> 255 * \<lfloor>r\<rfloor> + 255"
    and "uint (to_uint8 r) = \<lfloor>r\<rfloor> mod 256"
    and "\<not> 255 dvd int N \<Longrightarrow> \<lfloor>r\<rfloor> = int N div 255"
proof -
  have "unat mf * unat f \<le> 255 * 255" "unat mb * unat b \<le> 255 * 255"
    by (rule mult_le_mono [OF unat_le_255 unat_le_255])+
  then have N: "N \<le> 130050" unfolding N_def by linarith
  have "of_u8 f * of_u8 mf + of_u8 b * of_u8 mb = (of_nat N :: rat)"
    by (simp add: N_def of_u8_def mult.commute)
  then have n: "near 8 r (of_nat N / 255)"
    unfolding r_def using near_channel_sum [of f b mf mb] by (simp only:)
  note fl = floor_near [OF n N]
  have r0: "0 \<le> r" unfolding r_def by (rule channel_sum_nonneg)
  then show f0: "0 \<le> \<lfloor>r\<rfloor>" by simp
  show "255 * \<lfloor>r\<rfloor> \<le> int N" and "int N \<le> 255 * \<lfloor>r\<rfloor> + 255" by (rule fl)+
  show "uint (to_uint8 r) = \<lfloor>r\<rfloor> mod 256"
    using r0 by (simp add: uint_to_uint8 trunc_def)
  show "\<lfloor>r\<rfloor> = int N div 255" if nd: "\<not> 255 dvd int N"
  proof -
    have "int N \<noteq> 255 * \<lfloor>r\<rfloor> + 255"
    proof
      assume "int N = 255 * \<lfloor>r\<rfloor> + 255"
      then have "int N = 255 * (\<lfloor>r\<rfloor> + 1)" by simp
      then show False using nd by simp
    qed
    then have "int N < 255 * \<lfloor>r\<rfloor> + 255" using fl(2) by linarith
    then show ?thesis using fl(1) by linarith
  qed
qed

lemma pixel_channels:
  assumes "c < 3"
  shows "channels (uint8_px (blend_px f b m)) ! c
    = to_uint8 (channel_sum (channels f ! c) (channels b ! c) (channels m ! c)
        (255 - bgr2gray m))"
proof -
  obtain f1 f2 f3 b1 b2 b3 m1 m2 m3
    where p: "f = (f1, f2, f3)" "b = (b1, b2, b3)" "m = (m1, m2, m3)"
    by (cases f; cases b; cases m) auto
  have "c = 0 \<or> c = 1 \<or> c = 2" using assms by auto
  then show ?thesis
    unfolding p by (auto simp: channels_def uint8_px_def blend_px_def)
qed

lemma weighted255_alt:
  "weighted255 f b m c = int (unat (channels m ! c) * unat (channels f ! c)
     + unat (255 - bgr2gray m) * unat (channels b ! c))"
  by (simp add: weighted255_def sample_def unat_complement of_nat_diff unat_le_255)

lemma pixel_sample:
  assumes "c < 3"
  shows "sample (uint8_px (blend_px f b m)) c
    = trunc (channel_sum (channels f ! c) (channels b ! c) (channels m ! c) (255 - bgr2gray m))
        mod 256"
  by (simp add: sample_def pixel_channels [OF assms] uint_to_uint8)

lemma pixel_truncates:
  assumes c: "c < 3" and nd: "\<not> 255 dvd weighted255 f b m c"
  shows "sample (uint8_px (blend_px f b m)) c = (weighted255 f b m c div 255) mod 256"
proof -
  let ?r = "channel_sum (channels f ! c) (channels b ! c) (channels m ! c) (255 - bgr2gray m)"
  have "uint (to_uint8 ?r) = \<lfloor>?r\<rfloor> mod 256" by (rule channel_floor(4))
  moreover have "\<lfloor>?r\<rfloor> = weighted255 f b m c div 255"
    unfolding weighted255_alt using nd [unfolded weighted255_alt] by (rule channel_floor(5))
  ultimately show ?thesis by (simp add: sample_def pixel_channels [OF c])
qed

section \<open>The conversion to eight bits\<close>

lemma bgr2gray_blue: "bgr2gray (255, 0, 0) = 29"
  by (simp add: bgr2gray_def)

lemma bgr2gray_green: "bgr2gray (0, 255, 0) = 150"
  by (simp add: bgr2gray_def)

lemma channel_sum_over_blue: "channel_sum 255 255 255 226 = 481"
proof -
  have s1: "fmul 255 (282578800148737 / 72057594037927936) = 1"
    unfolding fmul_def
    by (subst rnd_pos_eq [where e = "-53"]) (simp_all add: rnd_eval)
  have s2: "fmul 1 1 = 1"
    unfolding fmul_def
    by (subst rnd_pos_eq [where e = "-52"]) (simp_all add: rnd_eval)
  have s3: "fmul 226 (282578800148737 / 72057594037927936) = 1995712776050455 / 2251799813685248"
    unfolding fmul_def
    by (subst rnd_pos_eq [where e = "-53"]) (simp_all add: rnd_eval)
  have s4: "fmul 1 (1995712776050455 / 2251799813685248) = 1995712776050455 / 2251799813685248"
    unfolding fmul_def
    by (subst rnd_pos_eq [where e = "-53"]) (simp_all add: rnd_eval)
  have s5: "fma (1995712776050455 / 2251799813685248) 255 0 = 226"
    unfolding fma_def
    by (subst rnd_pos_eq [where e = "-45"]) (simp_all add: rnd_eval)
  have s6: "fma 1 255 226 = 481"
    unfolding fma_def
    by (subst rnd_pos_eq [where e = "-44"]) (simp_all add: rnd_eval)
  have u: "of_u8 226 = 226" "of_u8 255 = 255"
    by (simp_all add: of_u8_def)
  show ?thesis
    by (simp only: channel_sum_def add_weighted1_def u inv255 s1 s2 s3 s4 s5 s6)
qed

lemma channel_sum_off_blue: "channel_sum 255 255 0 226 = 226"
proof -
  have s1: "fmul 255 (282578800148737 / 72057594037927936) = 1"
    unfolding fmul_def
    by (subst rnd_pos_eq [where e = "-53"]) (simp_all add: rnd_eval)
  have s2: "fmul 0 (282578800148737 / 72057594037927936) = 0"
    by (simp add: fmul_def rnd_zero)
  have s3: "fmul 1 0 = 0"
    by (simp add: fmul_def rnd_zero)
  have s4: "fmul 226 (282578800148737 / 72057594037927936) = 1995712776050455 / 2251799813685248"
    unfolding fmul_def
    by (subst rnd_pos_eq [where e = "-53"]) (simp_all add: rnd_eval)
  have s5: "fmul 1 (1995712776050455 / 2251799813685248) = 1995712776050455 / 2251799813685248"
    unfolding fmul_def
    by (subst rnd_pos_eq [where e = "-53"]) (simp_all add: rnd_eval)
  have s6: "fma (1995712776050455 / 2251799813685248) 255 0 = 226"
    unfolding fma_def
    by (subst rnd_pos_eq [where e = "-45"]) (simp_all add: rnd_eval)
  have s7: "fma 0 255 226 = 226"
    unfolding fma_def
    by (subst rnd_pos_eq [where e = "-45"]) (simp_all add: rnd_eval)
  have u: "of_u8 0 = 0" "of_u8 226 = 226" "of_u8 255 = 255"
    by (simp_all add: of_u8_def)
  show ?thesis
    by (simp only: channel_sum_def add_weighted1_def u inv255 s1 s2 s3 s4 s5 s6 s7)
qed

lemma channel_sum_over_green: "channel_sum 255 255 255 105 = 360"
proof -
  have s1: "fmul 255 (282578800148737 / 72057594037927936) = 1"
    unfolding fmul_def
    by (subst rnd_pos_eq [where e = "-53"]) (simp_all add: rnd_eval)
  have s2: "fmul 1 1 = 1"
    unfolding fmul_def
    by (subst rnd_pos_eq [where e = "-52"]) (simp_all add: rnd_eval)
  have s3: "fmul 105 (282578800148737 / 72057594037927936) = 3708846751952173 / 9007199254740992"
    unfolding fmul_def
    by (subst rnd_pos_eq [where e = "-54"]) (simp_all add: rnd_eval)
  have s4: "fmul 1 (3708846751952173 / 9007199254740992) = 3708846751952173 / 9007199254740992"
    unfolding fmul_def
    by (subst rnd_pos_eq [where e = "-54"]) (simp_all add: rnd_eval)
  have s5: "fma (3708846751952173 / 9007199254740992) 255 0 = 105"
    unfolding fma_def
    by (subst rnd_pos_eq [where e = "-46"]) (simp_all add: rnd_eval)
  have s6: "fma 1 255 105 = 360"
    unfolding fma_def
    by (subst rnd_pos_eq [where e = "-44"]) (simp_all add: rnd_eval)
  have u: "of_u8 105 = 105" "of_u8 255 = 255"
    by (simp_all add: of_u8_def)
  show ?thesis
    by (simp only: channel_sum_def add_weighted1_def u inv255 s1 s2 s3 s4 s5 s6)
qed

lemma channel_sum_off_green: "channel_sum 255 255 0 105 = 105"
proof -
  have s1: "fmul 255 (282578800148737 / 72057594037927936) = 1"
    unfolding fmul_def
    by (subst rnd_pos_eq [where e = "-53"]) (simp_all add: rnd_eval)
  have s2: "fmul 0 (282578800148737 / 72057594037927936) = 0"
    by (simp add: fmul_def rnd_zero)
  have s3: "fmul 1 0 = 0"
    by (simp add: fmul_def rnd_zero)
  have s4: "fmul 105 (282578800148737 / 72057594037927936) = 3708846751952173 / 9007199254740992"
    unfolding fmul_def
    by (subst rnd_pos_eq [where e = "-54"]) (simp_all add: rnd_eval)
  have s5: "fmul 1 (3708846751952173 / 9007199254740992) = 3708846751952173 / 9007199254740992"
    unfolding fmul_def
    by (subst rnd_pos_eq [where e = "-54"]) (simp_all add: rnd_eval)
  have s6: "fma (3708846751952173 / 9007199254740992) 255 0 = 105"
    unfolding fma_def
    by (subst rnd_pos_eq [where e = "-46"]) (simp_all add: rnd_eval)
  have s7: "fma 0 255 105 = 105"
    unfolding fma_def
    by (subst rnd_pos_eq [where e = "-46"]) (simp_all add: rnd_eval)
  have u: "of_u8 0 = 0" "of_u8 105 = 105" "of_u8 255 = 255"
    by (simp_all add: of_u8_def)
  show ?thesis
    by (simp only: channel_sum_def add_weighted1_def u inv255 s1 s2 s3 s4 s5 s6 s7)
qed

lemma blend_px_blue_mask: "blend_px white white (255, 0, 0) = (481, 226, 226)"
  by (simp add: blend_px_def white_def bgr2gray_blue channel_sum_over_blue channel_sum_off_blue)

lemma blend_px_green_mask: "blend_px white white (0, 255, 0) = (105, 360, 105)"
  by (simp add: blend_px_def white_def bgr2gray_green channel_sum_over_green channel_sum_off_green)

lemma weighted_sum_blue_mask:
  "weighted_sum (solid 2 2 white) (solid 2 2 white) (solid 2 2 (255, 0, 0))
     = Inr (solid 2 2 (481, 226, 226))"
  by (simp add: weighted_sum_solid blend_px_blue_mask)

lemma weighted_sum_green_mask:
  "weighted_sum (solid 2 2 white) (solid 2 2 white) (solid 2 2 (0, 255, 0))
     = Inr (solid 2 2 (105, 360, 105))"
  by (simp add: weighted_sum_solid blend_px_green_mask)

lemma overlay_image_green_mask:
  "overlay_image (solid 2 2 white) (solid 2 2 white) (solid 2 2 (0, 255, 0))
     = Inr (solid 2 2 (105, 104, 105))"
  by (simp add: overlay_image_def weighted_sum_green_mask np_uint8_solid uint8_px_def
      to_uint8_numeral) (simp add: solid_def)

text \<open>
  Claim C10: the final 8-bit conversion wraps modulo 256 instead of saturating.  With a
  pure blue mask pixel \<open>(255, 0, 0)\<close> the gray value is 29, so the blue channel has the
  foreground weight 255 and the background weight 226.  For white foreground and
  background the weighted sum of the blue channel is 481, above 255, and the output
  channel is 225, which is 481 modulo 256, not the clamped 255.
\<close>

theorem uint8_conversion_wraps:
  "weighted_sum (solid 2 2 white) (solid 2 2 white) (solid 2 2 (255, 0, 0))
     = Inr (solid 2 2 (481, 226, 226)) \<and>
   overlay_image (solid 2 2 white) (solid 2 2 white) (solid 2 2 (255, 0, 0))
     = Inr (solid 2 2 (225, 226, 226)) \<and>
   (481 :: int) mod 256 = 225"
  by (simp add: overlay_image_def weighted_sum_blue_mask np_uint8_solid uint8_px_def
      to_uint8_numeral) (simp add: solid_def)

text \<open>
  Claim C4, as stated: each output sample is the weighted sum rounded and clamped to
  the range 0 to 255.  With a pure green mask the green channel of a white foreground
  over a white background has the weighted sum 360; rounding and clamping gives 255,
  the code returns 104.
\<close>

theorem uint8_conversion_not_round_clamp:
  "overlay_image (solid 2 2 white) (solid 2 2 white) (solid 2 2 (0, 255, 0))
     = Inr (solid 2 2 (105, 104, 105)) \<and>
   map_sum id spec_round_clamp_image
       (weighted_sum (solid 2 2 white) (solid 2 2 white) (solid 2 2 (0, 255, 0)))
     = Inr (solid 2 2 (105, 255, 105))"
  by (simp add: overlay_image_green_mask weighted_sum_green_mask)
    (simp add: solid_def spec_round_clamp_image_def spec_round_clamp_def rint_def)

lemma overlay_image_returns:
  assumes F: "is_image fh fw F" and B: "is_image bh bw B" and M: "is_image mh mw M"
    and r: "overlay_image F B M = Inr out"
  obtains H W where "broadcast_shape F M = Some (H, W)" and "broadcast_shape B M = Some (H, W)"
    and "out = map (\<lambda>i. map (\<lambda>j. uint8_px (blend_px (bpixel F i j) (bpixel B i j) (bpixel M i j)))
             [0..<W]) [0..<H]"
proof (cases "broadcast_shape F M = None \<or> broadcast_shape B M = None")
  case True
  then have "weighted_sum F B M = Inl ValueError" by (rule weighted_sum_value_error [OF F B M])
  then show ?thesis using r by (simp add: overlay_image_def)
next
  case False
  then obtain s t where s: "broadcast_shape F M = Some s" and t: "broadcast_shape B M = Some t"
    by auto
  have st: "s = t"
  proof (rule ccontr)
    assume "s \<noteq> t"
    then have "weighted_sum F B M = Inl CvError" by (rule weighted_sum_size_error [OF F B M s t])
    then show False using r by (simp add: overlay_image_def)
  qed
  obtain H W where hw: "s = (H, W)" by (cases s)
  have "overlay_image F B M
      = Inr (map (\<lambda>i. map (\<lambda>j. uint8_px (blend_px (bpixel F i j) (bpixel B i j) (bpixel M i j)))
             [0..<W]) [0..<H])"
    using s t by (intro overlay_image_broadcast [OF F B M]) (simp_all add: st [symmetric] hw)
  then show ?thesis using that [of H W] s t r by (simp add: st [symmetric] hw)
qed

text \<open>
  Claim C4, amended: for every trio of inputs that \<^verbatim>\<open>overlay_image\<close> accepts, the output
  has the shape to which the inputs broadcast, and each 8-bit output sample is the double
  \<open>masked_fg * 255 + masked_bg * 255\<close> of the co-located (broadcast) foreground,
  background and mask pixels with its fraction dropped, reduced modulo 256: truncation,
  not rounding, and wrap-around, not clamping.  In exact integers: where the weighted sum
  \<open>(m * f + (255 - gray m) * b) / 255\<close> is not an integer, the output sample is its floor
  modulo 256.
\<close>

theorem overlay_image_truncates_and_wraps:
  assumes F: "is_image fh fw F" and B: "is_image bh bw B" and M: "is_image mh mw M"
    and r: "overlay_image F B M = Inr out"
  shows "\<exists>H W. broadcast_shape F M = Some (H, W) \<and> is_image H W out \<and>
    (\<forall>i < H. \<forall>j < W. \<forall>c < 3.
       sample (out ! i ! j) c
         = trunc (channel_sum (channels (bpixel F i j) ! c) (channels (bpixel B i j) ! c)
                    (channels (bpixel M i j) ! c) (255 - bgr2gray (bpixel M i j))) mod 256 \<and>
       (\<not> 255 dvd weighted255 (bpixel F i j) (bpixel B i j) (bpixel M i j) c \<longrightarrow>
          sample (out ! i ! j) c
            = weighted255 (bpixel F i j) (bpixel B i j) (bpixel M i j) c div 255 mod 256))"
proof -
  from overlay_image_returns [OF F B M r] obtain H W
    where s: "broadcast_shape F M = Some (H, W)"
      and out: "out = map (\<lambda>i. map (\<lambda>j.
          uint8_px (blend_px (bpixel F i j) (bpixel B i j) (bpixel M i j))) [0..<W]) [0..<H]"
    by blast
  have "is_image H W out"
    unfolding out using broadcast_shape_pos(1,2) [OF F M s] by (rule is_image_table)
  moreover have "\<forall>i < H. \<forall>j < W. \<forall>c < 3.
       sample (out ! i ! j) c
         = trunc (channel_sum (channels (bpixel F i j) ! c) (channels (bpixel B i j) ! c)
                    (channels (bpixel M i j) ! c) (255 - bgr2gray (bpixel M i j))) mod 256 \<and>
       (\<not> 255 dvd weighted255 (bpixel F i j) (bpixel B i j) (bpixel M i j) c \<longrightarrow>
          sample (out ! i ! j) c
            = weighted255 (bpixel F i j) (bpixel B i j) (bpixel M i j) c div 255 mod 256)"
  proof (intro allI impI conjI)
    fix i j c assume i: "i < H" and j: "j < W" and c: "c < (3 :: nat)"
    have o: "out ! i ! j = uint8_px (blend_px (bpixel F i j) (bpixel B i j) (bpixel M i j))"
      using i j by (simp add: out)
    show "sample (out ! i ! j) c
         = trunc (channel_sum (channels (bpixel F i j) ! c) (channels (bpixel B i j) ! c)
                    (channels (bpixel M i j) ! c) (255 - bgr2gray (bpixel M i j))) mod 256"
      unfolding o using c by (rule pixel_sample)
    show "sample (out ! i ! j) c
            = weighted255 (bpixel F i j) (bpixel B i j) (bpixel M i j) c div 255 mod 256"
      if "\<not> 255 dvd weighted255 (bpixel F i j) (bpixel B i j) (bpixel M i j) c"
      unfolding o using c that by (rule pixel_truncates)
  qed
  ultimately show ?thesis using s by blast
qed

lemma channel_sum_green_off_254: "channel_sum 255 254 0 105 = 3679871386702547 / 35184372088832"
proof -
  have s1: "fmul 255 (282578800148737 / 72057594037927936) = 1"
    unfolding fmul_def
    by (subst rnd_pos_eq [where e = "-53"]) (simp_all add: rnd_eval)
  have s2: "fmul 0 (282578800148737 / 72057594037927936) = 0"
    by (simp add: fmul_def rnd_zero)
  have s3: "fmul 1 0 = 0"
    by (simp add: fmul_def rnd_zero)
  have s4: "fmul 254 (282578800148737 / 72057594037927936) = 280371153272575 / 281474976710656"
    unfolding fmul_def
    by (subst rnd_pos_eq [where e = "-53"]) (simp_all add: rnd_eval)
  have s5: "fmul 105 (282578800148737 / 72057594037927936) = 3708846751952173 / 9007199254740992"
    unfolding fmul_def
    by (subst rnd_pos_eq [where e = "-54"]) (simp_all add: rnd_eval)
  have s6: "fmul (280371153272575 / 281474976710656) (3708846751952173 / 9007199254740992) = 1847151127442847 / 4503599627370496"
    unfolding fmul_def
    by (subst rnd_pos_eq [where e = "-54"]) (simp_all add: rnd_eval)
  have s7: "fma (1847151127442847 / 4503599627370496) 255 0 = 3679871386702547 / 35184372088832"
    unfolding fma_def
    by (subst rnd_pos_eq [where e = "-46"]) (simp_all add: rnd_eval)
  have s8: "fma 0 255 (3679871386702547 / 35184372088832) = 3679871386702547 / 35184372088832"
    unfolding fma_def
    by (subst rnd_pos_eq [where e = "-46"]) (simp_all add: rnd_eval)
  have u: "of_u8 0 = 0" "of_u8 105 = 105" "of_u8 254 = 254" "of_u8 255 = 255"
    by (simp_all add: of_u8_def)
  show ?thesis
    by (simp only: channel_sum_def add_weighted1_def u inv255 s1 s2 s3 s4 s5 s6 s7 s8)
qed

lemma channel_sum_green_over_254: "channel_sum 255 254 255 105 = 3162971567338677 / 8796093022208"
proof -
  have s1: "fmul 255 (282578800148737 / 72057594037927936) = 1"
    unfolding fmul_def
    by (subst rnd_pos_eq [where e = "-53"]) (simp_all add: rnd_eval)
  have s2: "fmul 1 1 = 1"
    unfolding fmul_def
    by (subst rnd_pos_eq [where e = "-52"]) (simp_all add: rnd_eval)
  have s3: "fmul 254 (282578800148737 / 72057594037927936) = 280371153272575 / 281474976710656"
    unfolding fmul_def
    by (subst rnd_pos_eq [where e = "-53"]) (simp_all add: rnd_eval)
  have s4: "fmul 105 (282578800148737 / 72057594037927936) = 3708846751952173 / 9007199254740992"
    unfolding fmul_def
    by (subst rnd_pos_eq [where e = "-54"]) (simp_all add: rnd_eval)
  have s5: "fmul (280371153272575 / 281474976710656) (3708846751952173 / 9007199254740992) = 1847151127442847 / 4503599627370496"
    unfolding fmul_def
    by (subst rnd_pos_eq [where e = "-54"]) (simp_all add: rnd_eval)
  have s6: "fma (1847151127442847 / 4503599627370496) 255 0 = 3679871386702547 / 35184372088832"
    unfolding fma_def
    by (subst rnd_pos_eq [where e = "-46"]) (simp_all add: rnd_eval)
  have s7: "fma 1 255 (3679871386702547 / 35184372088832) = 3162971567338677 / 8796093022208"
    unfolding fma_def
    by (subst rnd_pos_eq [where e = "-44"]) (simp_all add: rnd_eval)
  have u: "of_u8 105 = 105" "of_u8 254 = 254" "of_u8 255 = 255"
    by (simp_all add: of_u8_def)
  show ?thesis
    by (simp only: channel_sum_def add_weighted1_def u inv255 s1 s2 s3 s4 s5 s6 s7)
qed

lemma overlay_image_one_green:
  "overlay_image (solid 2 2 white) (solid 2 2 (254, 254, 254)) (solid 1 1 (0, 255, 0))
     = Inr (solid 2 2 (104, 103, 104))"
proof -
  have b: "blend_px white (254, 254, 254) (0, 255, 0)
      = (3679871386702547 / 35184372088832, 3162971567338677 / 8796093022208, 3679871386702547 / 35184372088832)"
    by (simp add: blend_px_def white_def bgr2gray_green channel_sum_green_off_254
        channel_sum_green_over_254)
  have t: "to_uint8 (3679871386702547 / 35184372088832) = 104" "to_uint8 (3162971567338677 / 8796093022208) = 103"
    by (simp_all add: to_uint8_def trunc_def floor_numeral_div)
  have "weighted_sum (solid 2 2 white) (solid 2 2 (254, 254, 254)) (solid 1 1 (0, 255, 0))
      = Inr (solid 2 2 (blend_px white (254, 254, 254) (0, 255, 0)))"
    by (rule weighted_sum_solids) (simp_all add: broadcast_len_def)
  then show ?thesis
    by (simp add: overlay_image_def np_uint8_solid b uint8_px_def t)
qed

theorem overlay_image_truncates_and_wraps_witness:
  "is_image 2 2 (solid 2 2 white) \<and> is_image 2 2 (solid 2 2 (254 :: u8, 254 :: u8, 254 :: u8)) \<and>
   is_image 1 1 (solid 1 1 (0 :: u8, 255 :: u8, 0 :: u8)) \<and>
   overlay_image (solid 2 2 white) (solid 2 2 (254, 254, 254)) (solid 1 1 (0, 255, 0))
     = Inr (solid 2 2 (104, 103, 104)) \<and>
   weighted255 white (254, 254, 254) (0, 255, 0) 1 = 91695 \<and>
   \<not> 255 dvd (91695 :: int) \<and> (91695 :: int) div 255 mod 256 = 103 \<and>
   (\<exists>H W. broadcast_shape (solid 2 2 white) (solid 1 1 (0 :: u8, 255 :: u8, 0 :: u8)) = Some (H, W) \<and>
     is_image H W (solid 2 2 (104 :: u8, 103 :: u8, 104 :: u8)) \<and>
     (\<forall>i < H. \<forall>j < W. \<forall>c < 3.
       sample (solid 2 2 (104, 103, 104) ! i ! j) c
         = trunc (channel_sum (channels (bpixel (solid 2 2 white) i j) ! c)
                    (channels (bpixel (solid 2 2 (254, 254, 254)) i j) ! c)
                    (channels (bpixel (solid 1 1 (0, 255, 0)) i j) ! c)
                    (255 - bgr2gray (bpixel (solid 1 1 (0, 255, 0)) i j))) mod 256 \<and>
       (\<not> 255 dvd weighted255 (bpixel (solid 2 2 white) i j)
                   (bpixel (solid 2 2 (254, 254, 254)) i j) (bpixel (solid 1 1 (0, 255, 0)) i j) c \<longrightarrow>
          sample (solid 2 2 (104, 103, 104) ! i ! j) c
            = weighted255 (bpixel (solid 2 2 white) i j) (bpixel (solid 2 2 (254, 254, 254)) i j)
                (bpixel (solid 1 1 (0, 255, 0)) i j) c div 255 mod 256)))"
proof -
  have a: "is_image 2 2 (solid 2 2 white)"
    "is_image 2 2 (solid 2 2 (254 :: u8, 254 :: u8, 254 :: u8))"
    "is_image 1 1 (solid 1 1 (0 :: u8, 255 :: u8, 0 :: u8))"
    by (simp_all add: is_image_solid)
  note e = overlay_image_one_green
  have w: "weighted255 white (254, 254, 254) (0, 255, 0) 1 = 91695"
    by (simp add: weighted255_def sample_def channels_def white_def bgr2gray_green)
  have d: "\<not> 255 dvd (91695 :: int)" "(91695 :: int) div 255 mod 256 = 103" by simp_all
  show ?thesis
    by (intro conjI a e w d overlay_image_truncates_and_wraps [OF a e])
qed

section \<open>Inputs of different dimensions\<close>

lemma broadcast_shape_None:
  assumes "is_image h w a" and "is_image h' w' b"
  shows "broadcast_shape a b = None \<longleftrightarrow> broadcast_len h h' = None \<or> broadcast_len w w' = None"
  using assms by (auto simp: broadcast_shape_def is_imageD(4,5) split: option.splits)

lemma overlay_image_errors:
  assumes F: "is_image fh fw F" and B: "is_image bh bw B" and M: "is_image mh mw M"
  shows "broadcast_shape F M = None \<or> broadcast_shape B M = None
      \<Longrightarrow> overlay_image F B M = Inl ValueError"
    and "broadcast_shape F M = Some s \<Longrightarrow> broadcast_shape B M = Some t \<Longrightarrow> s \<noteq> t
      \<Longrightarrow> overlay_image F B M = Inl CvError"
  by (simp_all add: overlay_image_def weighted_sum_value_error [OF F B M]
      weighted_sum_size_error [OF F B M])

text \<open>
  Claim C5, amended: \<^verbatim>\<open>overlay_image\<close> checks no dimensions itself; what happens to a
  trio of non-empty inputs is decided by numpy's broadcasting and by
  \<^verbatim>\<open>cv.addWeighted\<close>.  If the mask cannot be broadcast against the foreground or against
  the background (on some axis the two lengths differ and neither is 1), the elementwise
  multiplication raises \<^verbatim>\<open>ValueError\<close>.  If both products exist but have different
  shapes, \<^verbatim>\<open>cv.addWeighted\<close> raises an OpenCV error.  In every other case, where
  dimensions that disagree are of length 1 and both products have one shape, the call
  returns a composited frame of that shape.
\<close>

theorem overlay_image_dimension_cases:
  assumes F: "is_image fh fw F" and B: "is_image bh bw B" and M: "is_image mh mw M"
  shows "(broadcast_len fh mh = None \<or> broadcast_len fw mw = None \<or>
          broadcast_len bh mh = None \<or> broadcast_len bw mw = None
            \<longrightarrow> overlay_image F B M = Inl ValueError) \<and>
    (\<forall>H W H' W'. broadcast_len fh mh = Some H \<and> broadcast_len fw mw = Some W \<and>
          broadcast_len bh mh = Some H' \<and> broadcast_len bw mw = Some W' \<and> (H \<noteq> H' \<or> W \<noteq> W')
            \<longrightarrow> overlay_image F B M = Inl CvError) \<and>
    (\<forall>H W. broadcast_len fh mh = Some H \<and> broadcast_len fw mw = Some W \<and>
          broadcast_len bh mh = Some H \<and> broadcast_len bw mw = Some W
            \<longrightarrow> (\<exists>out. overlay_image F B M = Inr out \<and> is_image H W out))"
proof (intro conjI allI impI)
  assume "broadcast_len fh mh = None \<or> broadcast_len fw mw = None \<or>
          broadcast_len bh mh = None \<or> broadcast_len bw mw = None"
  then have "broadcast_shape F M = None \<or> broadcast_shape B M = None"
    by (simp add: broadcast_shape_None [OF F M] broadcast_shape_None [OF B M] disj_assoc)
  then show "overlay_image F B M = Inl ValueError" by (rule overlay_image_errors(1) [OF F B M])
next
  fix H W H' W'
  assume a: "broadcast_len fh mh = Some H \<and> broadcast_len fw mw = Some W \<and>
          broadcast_len bh mh = Some H' \<and> broadcast_len bw mw = Some W' \<and> (H \<noteq> H' \<or> W \<noteq> W')"
  have "broadcast_shape F M = Some (H, W)" "broadcast_shape B M = Some (H', W')"
    using a by (simp_all add: broadcast_shape_Some [OF F M] broadcast_shape_Some [OF B M])
  moreover have "(H, W) \<noteq> (H', W')" using a by blast
  ultimately show "overlay_image F B M = Inl CvError" by (rule overlay_image_errors(2) [OF F B M])
next
  fix H W
  assume a: "broadcast_len fh mh = Some H \<and> broadcast_len fw mw = Some W \<and>
          broadcast_len bh mh = Some H \<and> broadcast_len bw mw = Some W"
  have s: "broadcast_shape F M = Some (H, W)" and t: "broadcast_shape B M = Some (H, W)"
    using a by (simp_all add: broadcast_shape_Some [OF F M] broadcast_shape_Some [OF B M])
  have "is_image H W (map (\<lambda>i. map (\<lambda>j.
      uint8_px (blend_px (bpixel F i j) (bpixel B i j) (bpixel M i j))) [0..<W]) [0..<H])"
    using broadcast_shape_pos(1,2) [OF F M s] by (rule is_image_table)
  then show "\<exists>out. overlay_image F B M = Inr out \<and> is_image H W out"
    using overlay_image_broadcast [OF F B M s t] by blast
qed

theorem overlay_image_dimension_cases_witness:
  "is_image 2 2 (solid 2 2 white) \<and> is_image 3 3 (solid 3 3 black) \<and>
   is_image 1 1 (solid 1 1 white) \<and> is_image 2 3 (solid 2 3 white) \<and>
   is_image 3 2 (solid 3 2 white) \<and>
   overlay_image (solid 2 2 white) (solid 3 3 black) (solid 1 1 white) = Inl CvError \<and>
   overlay_image (solid 2 3 white) (solid 3 3 black) (solid 3 2 white) = Inl ValueError \<and>
   (\<exists>out. overlay_image (solid 2 3 white) (solid 1 1 white) (solid 2 3 white) = Inr out \<and>
      is_image 2 3 out)"
proof -
  have a: "is_image 2 2 (solid 2 2 white)" "is_image 3 3 (solid 3 3 black)"
    "is_image 1 1 (solid 1 1 white)" "is_image 2 3 (solid 2 3 white)"
    "is_image 3 2 (solid 3 2 white)"
    by (simp_all add: is_image_solid)
  have "overlay_image (solid 2 2 white) (solid 3 3 black) (solid 1 1 white) = Inl CvError"
    using overlay_image_dimension_cases [OF a(1) a(2) a(3)] by (simp add: broadcast_len_def)
  moreover have "overlay_image (solid 2 3 white) (solid 3 3 black) (solid 3 2 white) = Inl ValueError"
    using overlay_image_dimension_cases [OF a(4) a(2) a(5)] by (simp add: broadcast_len_def)
  moreover have "\<exists>out. overlay_image (solid 2 3 white) (solid 1 1 white) (solid 2 3 white) = Inr out \<and>
      is_image 2 3 out"
    using overlay_image_dimension_cases [OF a(4) a(3) a(4)] by (simp add: broadcast_len_def)
  ultimately show ?thesis using a by simp
qed

lemma channel_sum_full: "channel_sum 255 0 255 0 = 255"
proof -
  have s1: "fmul 255 (282578800148737 / 72057594037927936) = 1"
    unfolding fmul_def
    by (subst rnd_pos_eq [where e = "-53"]) (simp_all add: rnd_eval)
  have s2: "fmul 1 1 = 1"
    unfolding fmul_def
    by (subst rnd_pos_eq [where e = "-52"]) (simp_all add: rnd_eval)
  have s3: "fmul 0 (282578800148737 / 72057594037927936) = 0"
    by (simp add: fmul_def rnd_zero)
  have s4: "fmul 0 0 = 0"
    by (simp add: fmul_def rnd_zero)
  have s5: "fma 0 255 0 = 0"
    by (simp add: fma_def rnd_zero)
  have s6: "fma 1 255 0 = 255"
    unfolding fma_def
    by (subst rnd_pos_eq [where e = "-45"]) (simp_all add: rnd_eval)
  have u: "of_u8 0 = 0" "of_u8 255 = 255"
    by (simp_all add: of_u8_def)
  show ?thesis
    by (simp only: channel_sum_def add_weighted1_def u inv255 s1 s2 s3 s4 s5 s6)
qed

lemma blend_px_white_over_black: "blend_px white black white = (255, 255, 255)"
  by (simp add: blend_px_def white_def black_def bgr2gray_gray channel_sum_full)

text \<open>
  Claim C5, as stated: every trio of inputs whose spatial dimensions disagree fails.
  A 1 by 1 white mask with 2 by 2 frames disagrees in both dimensions, and the call
  returns the 2 by 2 composite: numpy repeats the single mask pixel over the frame.
\<close>

theorem one_pixel_mask_is_broadcast:
  "is_image 2 2 (solid 2 2 white) \<and> is_image 2 2 (solid 2 2 black) \<and>
   is_image 1 1 (solid 1 1 white) \<and>
   overlay_image (solid 2 2 white) (solid 2 2 black) (solid 1 1 white) = Inr (solid 2 2 white)"
proof -
  have "weighted_sum (solid 2 2 white) (solid 2 2 black) (solid 1 1 white)
      = Inr (solid 2 2 (blend_px white black white))"
    by (rule weighted_sum_solids) (simp_all add: broadcast_len_def)
  then have "overlay_image (solid 2 2 white) (solid 2 2 black) (solid 1 1 white)
      = Inr (np_uint8 (solid 2 2 (blend_px white black white)))"
    by (simp only: overlay_image_def sum.case)
  moreover have "uint8_px (blend_px white black white) = white"
    by (simp only: blend_px_white_over_black) (simp add: uint8_px_def to_uint8_numeral white_def)
  ultimately have "overlay_image (solid 2 2 white) (solid 2 2 black) (solid 1 1 white)
      = Inr (solid 2 2 white)"
    by (simp only: np_uint8_solid)
  then show ?thesis by (simp add: is_image_solid)
qed

section \<open>Gray masks\<close>

lemma channel_sum_mid_extreme: "channel_sum 0 255 128 127 = 127"
proof -
  have s1: "fmul 0 (282578800148737 / 72057594037927936) = 0"
    by (simp add: fmul_def rnd_zero)
  have s2: "fmul 128 (282578800148737 / 72057594037927936) = 282578800148737 / 562949953421312"
    unfolding fmul_def
    by (subst rnd_pos_eq [where e = "-53"]) (simp_all add: rnd_eval)
  have s3: "fmul 0 (282578800148737 / 562949953421312) = 0"
    by (simp add: fmul_def rnd_zero)
  have s4: "fmul 255 (282578800148737 / 72057594037927936) = 1"
    unfolding fmul_def
    by (subst rnd_pos_eq [where e = "-53"]) (simp_all add: rnd_eval)
  have s5: "fmul 127 (282578800148737 / 72057594037927936) = 280371153272575 / 562949953421312"
    unfolding fmul_def
    by (subst rnd_pos_eq [where e = "-54"]) (simp_all add: rnd_eval)
  have s6: "fmul 1 (280371153272575 / 562949953421312) = 280371153272575 / 562949953421312"
    unfolding fmul_def
    by (subst rnd_pos_eq [where e = "-54"]) (simp_all add: rnd_eval)
  have s7: "fma (280371153272575 / 562949953421312) 255 0 = 127"
    unfolding fma_def
    by (subst rnd_pos_eq [where e = "-46"]) (simp_all add: rnd_eval)
  have s8: "fma 0 255 127 = 127"
    unfolding fma_def
    by (subst rnd_pos_eq [where e = "-46"]) (simp_all add: rnd_eval)
  have u: "of_u8 0 = 0" "of_u8 127 = 127" "of_u8 128 = 128" "of_u8 255 = 255"
    by (simp_all add: of_u8_def)
  show ?thesis
    by (simp only: channel_sum_def add_weighted1_def u inv255 s1 s2 s3 s4 s5 s6 s7 s8)
qed

lemma channel_mid_gray:
  fixes f b :: u8
  defines "out \<equiv> uint (to_uint8 (channel_sum f b 128 127))"
  shows "\<bar>2 * out - (uint f + uint b)\<bar> \<le> 2"
proof (cases "f = 0 \<and> b = 255")
  case True
  then show ?thesis
    by (simp add: out_def channel_sum_mid_extreme to_uint8_numeral)
next
  case False
  let ?q = "\<lfloor>channel_sum f b 128 127\<rfloor>"
  have b255: "unat b \<le> 255" and f255: "unat f \<le> 255" by (rule unat_le_255)+
  have "b = 255" if "unat b = 255"
  proof -
    have "unat b = unat (255 :: u8)" using that by simp
    then show ?thesis by (simp only: word_unat_eq_iff)
  qed
  then have ne: "unat f \<noteq> 0 \<or> unat b \<noteq> 255"
    using False unat_0_iff [of f] by blast
  have q0: "0 \<le> ?q" and lo: "255 * ?q \<le> int (128 * unat f + 127 * unat b)"
    and hi: "int (128 * unat f + 127 * unat b) \<le> 255 * ?q + 255"
    and o: "out = ?q mod 256"
    using channel_floor(1-4) [where f = f and b = b and mf = 128 and mb = 127]
    by (simp_all add: out_def)
  have "?q < 256" using lo b255 f255 by linarith
  then have o': "out = ?q" using o q0 by simp
  have u: "uint f = int (unat f)" "uint b = int (unat b)" by simp_all
  show ?thesis using lo hi b255 f255 ne unfolding u o' by linarith
qed

lemma gray_weighted255:
  assumes "is_gray_px m" and "c < 3"
  shows "weighted255 f b m c = blend255 f b m c"
proof -
  obtain v where m: "m = (v, v, v)" using assms(1) by (cases m) (auto simp: is_gray_px_def)
  have "c = 0 \<or> c = 1 \<or> c = 2" using assms(2) by auto
  then have "sample m c = uint v" by (auto simp: m sample_def channels_def)
  then show ?thesis by (simp add: weighted255_def blend255_def m bgr2gray_gray)
qed

lemma sample_range: "0 \<le> sample p c" "c < 3 \<Longrightarrow> sample p c \<le> 255"
proof -
  show "0 \<le> sample p c" by (simp add: sample_def)
  have "uint v \<le> 255" for v :: u8 using unsigned_less [of v, where ?'a = int] by simp
  then show "sample p c \<le> 255" by (simp add: sample_def)
qed

lemma blend255_range:
  assumes "c < 3"
  shows "0 \<le> blend255 f b m c" and "blend255 f b m c \<le> 65025"
proof -
  note r = sample_range(1) [of f c] sample_range(1) [of b c] sample_range(1) [of m c]
    sample_range(2) [OF assms, of f] sample_range(2) [OF assms, of b] sample_range(2) [OF assms, of m]
  show "0 \<le> blend255 f b m c" using r by (simp add: blend255_def)
  have "sample m c * sample f c \<le> sample m c * 255"
    using r by (intro mult_left_mono) simp_all
  moreover have "(255 - sample m c) * sample b c \<le> (255 - sample m c) * 255"
    using r by (intro mult_left_mono) simp_all
  ultimately show "blend255 f b m c \<le> 65025" unfolding blend255_def by (simp add: algebra_simps)
qed

lemma blend255_spec_convex: "of_int (blend255 f b m c) = 255 * spec_convex f b m c"
  by (simp add: blend255_def spec_convex_def algebra_simps)

lemma gray_pixel_floor:
  fixes f b m :: pixel
  assumes g: "is_gray_px m" and c: "c < 3" and x: "spec_convex f b m c \<notin> \<int>"
  shows "sample (uint8_px (blend_px f b m)) c = \<lfloor>spec_convex f b m c\<rfloor>"
proof -
  let ?N = "blend255 f b m c"
  have sx: "spec_convex f b m c = of_int ?N / of_int 255" by (simp add: blend255_spec_convex)
  have nd: "\<not> 255 dvd ?N"
  proof
    assume "255 dvd ?N"
    then obtain k where "?N = 255 * k" by (rule dvdE)
    then have "spec_convex f b m c = of_int k" by (simp add: sx)
    then show False using x by simp
  qed
  have "sample (uint8_px (blend_px f b m)) c = ?N div 255 mod 256"
    using pixel_truncates [OF c, of f b m] nd by (simp add: gray_weighted255 [OF g c])
  moreover have "0 \<le> ?N div 255" "?N div 255 < 256"
    using blend255_range [OF c, of f b m] by simp_all
  moreover have "\<lfloor>spec_convex f b m c\<rfloor> = ?N div 255"
    unfolding sx by (rule floor_divide_of_int_eq)
  ultimately show ?thesis by simp
qed

lemma gray_pixel_mid:
  fixes f b m :: pixel
  assumes g: "is_gray_px m" and c: "c < 3" and m: "sample m c = 128"
  shows "\<bar>2 * sample (uint8_px (blend_px f b m)) c - (sample f c + sample b c)\<bar> \<le> 2"
proof -
  let ?f = "channels f ! c" and ?b = "channels b ! c" and ?m = "channels m ! c"
  obtain v where mv: "m = (v, v, v)" using g by (cases m) (auto simp: is_gray_px_def)
  have "c = 0 \<or> c = 1 \<or> c = 2" using c by auto
  then have cm: "?m = v" by (auto simp: mv channels_def)
  have "uint v = uint (128 :: u8)" using m cm by (simp add: sample_def)
  then have v: "v = 128" by (simp only: word_uint_eq_iff)
  have "sample (uint8_px (blend_px f b m)) c = uint (to_uint8 (channel_sum ?f ?b 128 127))"
    by (simp add: sample_def pixel_channels [OF c] cm) (simp add: mv v bgr2gray_gray)
  then show ?thesis using channel_mid_gray [of ?f ?b] by (simp add: sample_def)
qed

lemma gray_maskD:
  assumes "gray_mask M" and "is_image h w M" and "i < h" and "j < w"
  shows "is_gray_px (M ! i ! j)"
  using assms by (simp add: gray_mask_def list_all_length is_imageD)

text \<open>
  Claim C1, amended: for a foreground, a background and a mask of the same positive
  dimensions, the mask having equal channels at every pixel, \<^verbatim>\<open>overlay_image\<close> returns
  a frame of these dimensions.  Where the convex combination
  \<open>x = (m / 255) * f + (1 - m / 255) * b\<close> of the co-located foreground and background
  samples is not an integer, the output sample is \<open>\<lfloor>x\<rfloor>\<close>: the combination with its
  fraction dropped.  Where the mask sample is 128 the output differs from the average
  \<open>(f + b) / 2\<close> by at most 1.
\<close>

theorem overlay_image_gray_mask:
  assumes F: "is_image h w F" and B: "is_image h w B" and M: "is_image h w M"
    and gray: "gray_mask M"
  shows "\<exists>out. overlay_image F B M = Inr out \<and> is_image h w out \<and>
    (\<forall>i < h. \<forall>j < w. \<forall>c < 3.
       (spec_convex (F ! i ! j) (B ! i ! j) (M ! i ! j) c \<notin> \<int> \<longrightarrow>
          sample (out ! i ! j) c = \<lfloor>spec_convex (F ! i ! j) (B ! i ! j) (M ! i ! j) c\<rfloor>) \<and>
       (sample (M ! i ! j) c = 128 \<longrightarrow>
          \<bar>2 * sample (out ! i ! j) c - (sample (F ! i ! j) c + sample (B ! i ! j) c)\<bar> \<le> 2))"
proof -
  from overlay_image_same_shape [OF F B M] obtain out
    where r: "overlay_image F B M = Inr out" and s: "is_image h w out"
      and o: "\<And>i j. i < h \<Longrightarrow> j < w \<Longrightarrow>
        out ! i ! j = uint8_px (blend_px (F ! i ! j) (B ! i ! j) (M ! i ! j))"
    by blast
  have "(spec_convex (F ! i ! j) (B ! i ! j) (M ! i ! j) c \<notin> \<int> \<longrightarrow>
          sample (out ! i ! j) c = \<lfloor>spec_convex (F ! i ! j) (B ! i ! j) (M ! i ! j) c\<rfloor>) \<and>
       (sample (M ! i ! j) c = 128 \<longrightarrow>
          \<bar>2 * sample (out ! i ! j) c - (sample (F ! i ! j) c + sample (B ! i ! j) c)\<bar> \<le> 2)"
    if i: "i < h" and j: "j < w" and c: "c < 3" for i j c
  proof -
    have g: "is_gray_px (M ! i ! j)" by (rule gray_maskD [OF gray M i j])
    show ?thesis
      unfolding o [OF i j]
      using gray_pixel_floor [OF g c, of "F ! i ! j" "B ! i ! j"]
        gray_pixel_mid [OF g c, of "F ! i ! j" "B ! i ! j"]
      by blast
  qed
  then show ?thesis using r s by blast
qed

lemma channel_sum_two_mid: "channel_sum 0 2 128 127 = 280371153272575 / 281474976710656"
proof -
  have s1: "fmul 0 (282578800148737 / 72057594037927936) = 0"
    by (simp add: fmul_def rnd_zero)
  have s2: "fmul 128 (282578800148737 / 72057594037927936) = 282578800148737 / 562949953421312"
    unfolding fmul_def
    by (subst rnd_pos_eq [where e = "-53"]) (simp_all add: rnd_eval)
  have s3: "fmul 0 (282578800148737 / 562949953421312) = 0"
    by (simp add: fmul_def rnd_zero)
  have s4: "fmul 2 (282578800148737 / 72057594037927936) = 282578800148737 / 36028797018963968"
    unfolding fmul_def
    by (subst rnd_pos_eq [where e = "-59"]) (simp_all add: rnd_eval)
  have s5: "fmul 127 (282578800148737 / 72057594037927936) = 280371153272575 / 562949953421312"
    unfolding fmul_def
    by (subst rnd_pos_eq [where e = "-54"]) (simp_all add: rnd_eval)
  have s6: "fmul (282578800148737 / 36028797018963968) (280371153272575 / 562949953421312) = 9007060735721311 / 2305843009213693952"
    unfolding fmul_def
    by (subst rnd_pos_eq [where e = "-61"]) (simp_all add: rnd_eval)
  have s7: "fma (9007060735721311 / 2305843009213693952) 255 0 = 280371153272575 / 281474976710656"
    unfolding fma_def
    by (subst rnd_pos_eq [where e = "-53"]) (simp_all add: rnd_eval)
  have s8: "fma 0 255 (280371153272575 / 281474976710656) = 280371153272575 / 281474976710656"
    unfolding fma_def
    by (subst rnd_pos_eq [where e = "-53"]) (simp_all add: rnd_eval)
  have u: "of_u8 0 = 0" "of_u8 2 = 2" "of_u8 127 = 127" "of_u8 128 = 128"
    by (simp_all add: of_u8_def)
  show ?thesis
    by (simp only: channel_sum_def add_weighted1_def u inv255 s1 s2 s3 s4 s5 s6 s7 s8)
qed

lemma gray_mask_solid: "is_gray_px p \<Longrightarrow> gray_mask (solid h w p)"
  by (simp add: gray_mask_def solid_def list_all_iff)

text \<open>
  Claim C1, as stated: each output pixel is the convex combination of the foreground
  and background pixels weighted by the normalized mask.  For the foreground sample 0
  over the background sample 2 under the mask sample 128 the combination is
  \<open>254 / 255\<close>, whose nearest integer is 1; the code returns 0.
\<close>

theorem gray_mask_output_is_truncated:
  "overlay_image (solid 2 2 black) (solid 2 2 (2, 2, 2)) (solid 2 2 (128, 128, 128))
     = Inr (solid 2 2 black) \<and>
   spec_convex black (2, 2, 2) (128, 128, 128) 0 = 254 / 255 \<and>
   rint (254 / 255) = 1"
proof -
  have "blend_px black (2, 2, 2) (128, 128, 128)
      = (280371153272575 / 281474976710656, 280371153272575 / 281474976710656,
         280371153272575 / 281474976710656)"
    by (simp add: blend_px_def black_def bgr2gray_gray channel_sum_two_mid)
  moreover have "to_uint8 (280371153272575 / 281474976710656) = 0"
    by (simp add: to_uint8_def trunc_def floor_numeral_div)
  ultimately have "uint8_px (blend_px black (2, 2, 2) (128, 128, 128)) = black"
    by (simp add: uint8_px_def black_def)
  then have "overlay_image (solid 2 2 black) (solid 2 2 (2, 2, 2)) (solid 2 2 (128, 128, 128))
     = Inr (solid 2 2 black)"
    by (simp add: overlay_image_solid)
  moreover have "spec_convex black (2, 2, 2) (128, 128, 128) 0 = 254 / 255"
    by (simp add: spec_convex_def sample_def channels_def black_def)
  moreover have "rint (254 / 255) = 1"
    by (simp add: rint_def Let_def floor_numeral_div)
  ultimately show ?thesis by simp
qed

lemma not_int_between: "of_int k < x \<Longrightarrow> x < of_int k + 1 \<Longrightarrow> x \<notin> \<int>"
  for x :: rat
  by (auto elim!: Ints_cases)

theorem overlay_image_gray_mask_witness:
  "is_image 1 2 [[white, (10, 20, 30)]] \<and> is_image 1 2 [[black, (200, 100, 50)]] \<and>
   is_image 1 2 ([[(128, 128, 128), (64, 64, 64)]] :: image) \<and>
   gray_mask [[(128, 128, 128), (64, 64, 64)]] \<and>
   (\<exists>out. overlay_image [[white, (10, 20, 30)]] [[black, (200, 100, 50)]]
            [[(128, 128, 128), (64, 64, 64)]] = Inr out \<and>
     is_image 1 2 out \<and>
     \<bar>2 * sample (out ! 0 ! 0) 0 - 255\<bar> \<le> 2 \<and> sample (out ! 0 ! 1) 0 = 152 \<and>
     sample (out ! 0 ! 1) 1 = 79 \<and> sample (out ! 0 ! 1) 2 = 44)"
proof -
  let ?F = "[[white, (10, 20, 30)]]" and ?B = "[[black, (200, 100, 50)]]"
  let ?M = "[[(128, 128, 128), (64, 64, 64)]] :: image"
  have a: "is_image 1 2 ?F" "is_image 1 2 ?B" "is_image 1 2 ?M"
    by (simp_all add: is_image_def)
  have g: "gray_mask ?M" by (simp add: gray_mask_def is_gray_px_def)
  from overlay_image_gray_mask [OF a g] obtain out
    where r: "overlay_image ?F ?B ?M = Inr out" and s: "is_image 1 2 out"
      and o: "\<forall>i < 1. \<forall>j < 2. \<forall>c < 3.
       (spec_convex (?F ! i ! j) (?B ! i ! j) (?M ! i ! j) c \<notin> \<int> \<longrightarrow>
          sample (out ! i ! j) c = \<lfloor>spec_convex (?F ! i ! j) (?B ! i ! j) (?M ! i ! j) c\<rfloor>) \<and>
       (sample (?M ! i ! j) c = 128 \<longrightarrow>
          \<bar>2 * sample (out ! i ! j) c - (sample (?F ! i ! j) c + sample (?B ! i ! j) c)\<bar> \<le> 2)"
    by blast
  have x: "spec_convex (10, 20, 30) (200, 100, 50) (64, 64, 64) 0 = 38840 / 255"
    "spec_convex (10, 20, 30) (200, 100, 50) (64, 64, 64) 1 = 20380 / 255"
    "spec_convex (10, 20, 30) (200, 100, 50) (64, 64, 64) 2 = 11470 / 255"
    by (simp_all add: spec_convex_def sample_def channels_def)
  have n: "(38840 / 255 :: rat) \<notin> \<int>" "(20380 / 255 :: rat) \<notin> \<int>" "(11470 / 255 :: rat) \<notin> \<int>"
    using not_int_between [of 152 "38840 / 255"] not_int_between [of 79 "20380 / 255"]
      not_int_between [of 44 "11470 / 255"]
    by simp_all
  have fl: "sample (out ! i ! j) c = \<lfloor>spec_convex (?F ! i ! j) (?B ! i ! j) (?M ! i ! j) c\<rfloor>"
    if "i < 1" and "j < 2" and "c < 3"
      and "spec_convex (?F ! i ! j) (?B ! i ! j) (?M ! i ! j) c \<notin> \<int>" for i j c
    using o that by blast
  have mid: "\<bar>2 * sample (out ! i ! j) c - (sample (?F ! i ! j) c + sample (?B ! i ! j) c)\<bar> \<le> 2"
    if "i < 1" and "j < 2" and "c < 3" and "sample (?M ! i ! j) c = 128" for i j c
    using o that by blast
  have p: "?F ! 0 ! 1 = (10, 20, 30)" "?B ! 0 ! 1 = (200, 100, 50)" "?M ! 0 ! 1 = (64, 64, 64)"
    "?F ! 0 ! 0 = white" "?B ! 0 ! 0 = black" "?M ! 0 ! 0 = (128, 128, 128)"
    by simp_all
  have m: "sample (128, 128, 128) 0 = 128" "sample white 0 = 255" "sample black 0 = 0"
    by (simp_all add: sample_def channels_def white_def black_def)
  have "\<bar>2 * sample (out ! 0 ! 0) 0 - (sample white 0 + sample black 0)\<bar> \<le> 2"
    using mid [of 0 0 0, unfolded p] m(1) by simp
  then have "\<bar>2 * sample (out ! 0 ! 0) 0 - 255\<bar> \<le> 2" by (simp only: m add_0_right)
  moreover have "sample (out ! 0 ! 1) 0 = \<lfloor>38840 / 255 :: rat\<rfloor>"
    using fl [of 0 1 0, unfolded p x] n(1) by simp
  then have "sample (out ! 0 ! 1) 0 = 152" by (simp add: floor_numeral_div)
  moreover have "sample (out ! 0 ! 1) 1 = \<lfloor>20380 / 255 :: rat\<rfloor>"
    using fl [of 0 1 1, unfolded p x] n(2) by simp
  then have "sample (out ! 0 ! 1) 1 = 79" by (simp add: floor_numeral_div)
  moreover have "sample (out ! 0 ! 1) 2 = \<lfloor>11470 / 255 :: rat\<rfloor>"
    using fl [of 0 1 2, unfolded p x] n(3) by simp
  then have "sample (out ! 0 ! 1) 2 = 44" by (simp add: floor_numeral_div)
  ultimately show ?thesis using a g r s by blast
qed

section \<open>Properties of the color table\<close>

lemma list_index_absent: "x \<notin> set xs \<Longrightarrow> list_index xs x = Inl ValueError"
  by (induction xs) auto

lemma list_index_present:
  "x \<in> set xs \<Longrightarrow> \<exists>i. list_index xs x = Inr i \<and> i < length xs \<and> xs ! i = x \<and> first_occurrence xs i"
proof (induction xs)
  case Nil
  then show ?case by simp
next
  case (Cons y ys)
  show ?case
  proof (cases "y = x")
    case True
    then show ?thesis by (simp add: first_occurrence_def)
  next
    case False
    with Cons obtain i where "list_index ys x = Inr i" "i < length ys" "ys ! i = x"
      "first_occurrence ys i" by auto
    with False show ?thesis by (auto simp: first_occurrence_def)
  qed
qed

lemma list_index_cases:
  "list_index xs x = Inl ValueError \<or> (\<exists>i. list_index xs x = Inr i \<and> i < length xs)"
  using list_index_absent [of x xs] list_index_present [of x xs] by blast

lemma first_occurrence_unique:
  assumes "first_occurrence xs i" and "first_occurrence xs j" and "xs ! i = xs ! j"
    and "i < length xs" and "j < length xs"
  shows "i = j"
proof (rule ccontr)
  assume "i \<noteq> j"
  then consider "i < j" | "j < i" by linarith
  then show False
  proof cases
    case 1
    then have "xs ! i \<in> set (take j xs)" using assms(5) by (auto simp: in_set_conv_nth)
    then show False using assms(2,3) by (simp add: first_occurrence_def)
  next
    case 2
    then have "xs ! j \<in> set (take i xs)" using assms(4) by (auto simp: in_set_conv_nth)
    then show False using assms(1,3) by (simp add: first_occurrence_def)
  qed
qed

lemma paint_targets_present:
  assumes "set targets \<subseteq> set labs" and "length labs \<le> length cols"
  shows "\<exists>table. paint_targets labs targets cols = Inr table \<and> length table = length cols \<and>
    (\<forall>i < length cols. table ! i =
       (if i < length labs \<and> labs ! i \<in> set targets \<and> first_occurrence labs i then white
        else cols ! i))"
  using assms
proof (induction targets arbitrary: cols)
  case Nil
  then show ?case by simp
next
  case (Cons t ts)
  from Cons.prems obtain k where k: "list_index labs t = Inr k" "k < length labs" "labs ! k = t"
    "first_occurrence labs k"
    using list_index_present [of t labs] by auto
  let ?cols = "cols[k := white]"
  have s: "set_item cols k white = Inr ?cols" using k(2) Cons.prems(2) by (simp add: set_item_def)
  from Cons.IH [of ?cols] Cons.prems obtain table where
    t: "paint_targets labs ts ?cols = Inr table" "length table = length cols"
      "\<forall>i < length cols. table ! i =
         (if i < length labs \<and> labs ! i \<in> set ts \<and> first_occurrence labs i then white
          else ?cols ! i)"
    by auto
  have "table ! i =
       (if i < length labs \<and> labs ! i \<in> set (t # ts) \<and> first_occurrence labs i then white
        else cols ! i)" if i: "i < length cols" for i
  proof (cases "i = k")
    case True
    then show ?thesis using t(3) i k by simp
  next
    case False
    have "\<not> (i < length labs \<and> labs ! i = t \<and> first_occurrence labs i)"
      using False k first_occurrence_unique [of labs i k] by auto
    then show ?thesis using t(3) i False by auto
  qed
  then show ?case using t(1,2) by (simp add: k(1) s)
qed

lemma paint_targets_absent:
  assumes "t \<in> set targets" and "t \<notin> set labs"
  shows "\<exists>e. paint_targets labs targets cols = Inl e \<and>
    (length labs \<le> length cols \<longrightarrow> e = ValueError)"
  using assms(1)
proof (induction targets arbitrary: cols)
  case Nil
  then show ?case by simp
next
  case (Cons x xs)
  show ?case
  proof (cases "x = t")
    case True
    then show ?thesis using assms(2) by (simp add: list_index_absent)
  next
    case False
    with Cons.prems have t: "t \<in> set xs" by simp
    from list_index_cases [of labs x] show ?thesis
    proof
      assume "list_index labs x = Inl ValueError"
      then show ?thesis by simp
    next
      assume "\<exists>i. list_index labs x = Inr i \<and> i < length labs"
      then obtain i where i: "list_index labs x = Inr i" "i < length labs" by blast
      show ?thesis
      proof (cases "i < length cols")
        case True
        then have s: "set_item cols i white = Inr (cols[i := white])" by (simp add: set_item_def)
        from Cons.IH [OF t, of "cols[i := white]"] show ?thesis by (simp add: i(1) s)
      next
        case False
        then have "set_item cols i white = Inl IndexError" by (simp add: set_item_def)
        moreover have "\<not> length labs \<le> length cols" using False i(2) by simp
        ultimately show ?thesis by (simp add: i(1))
      qed
    qed
  qed
qed

text \<open>
  Claim C6, as stated: the table is white at the indices of the target labels and black
  elsewhere.  When a label occurs twice in the label list, only its first index is
  painted: \<^verbatim>\<open>list.index\<close> returns the first position.
\<close>

theorem duplicate_label_stays_black:
  "build_color_table \<lparr>labels = [''person'', ''person''], colors = [(7, 7, 7), (9, 9, 9)]\<rparr>
       [''person'']
     = Inr [white, black] \<and>
   spec_color_table [''person'', ''person''] [''person''] = [white, white]"
  by (simp add: build_color_table_def set_item_def spec_color_table_def)

text \<open>
  Claim C6, amended: for a label list with one color per label and target labels that all
  occur in it, the derived color table has one entry per label and is black at every
  index except the first index at which each target label occurs, which is white.  When
  no label occurs twice, that is: white exactly at the indices whose label is a target,
  in list order.
\<close>

theorem build_color_table_first_occurrences:
  assumes "set targets \<subseteq> set (labels seg)" and "length (colors seg) = length (labels seg)"
  shows "\<exists>table. build_color_table seg targets = Inr table \<and>
    length table = length (labels seg) \<and>
    (\<forall>i < length (labels seg). table ! i =
       (if labels seg ! i \<in> set targets \<and> first_occurrence (labels seg) i then white else black)) \<and>
    (distinct (labels seg) \<longrightarrow> table = spec_color_table (labels seg) targets)"
proof -
  let ?cols = "map (\<lambda>i. black) (colors seg)"
  have "length (labels seg) \<le> length ?cols" using assms(2) by simp
  from paint_targets_present [OF assms(1) this] obtain table where
    t: "paint_targets (labels seg) targets ?cols = Inr table" "length table = length ?cols"
      "\<forall>i < length ?cols. table ! i =
         (if i < length (labels seg) \<and> labels seg ! i \<in> set targets \<and>
             first_occurrence (labels seg) i then white else ?cols ! i)"
    by blast
  have l: "length table = length (labels seg)" using t(2) assms(2) by simp
  have p: "table ! i =
       (if labels seg ! i \<in> set targets \<and> first_occurrence (labels seg) i then white else black)"
    if "i < length (labels seg)" for i
    using t(3) that assms(2) by simp
  have "table = spec_color_table (labels seg) targets" if d: "distinct (labels seg)"
  proof (rule nth_equalityI)
    show "length table = length (spec_color_table (labels seg) targets)"
      using l by (simp add: spec_color_table_def)
  next
    fix i assume "i < length table"
    then have i: "i < length (labels seg)" using l by simp
    have "first_occurrence (labels seg) i"
      using d i unfolding first_occurrence_def
      by (metis distinct_take id_take_nth_drop distinct_append not_distinct_conv_prefix
          append_Cons append_assoc)
    then show "table ! i = spec_color_table (labels seg) targets ! i"
      using p [OF i] i by (simp add: spec_color_table_def)
  qed
  then show ?thesis using t(1) l p by (auto simp: build_color_table_def)
qed

theorem build_color_table_first_occurrences_witness:
  "set [''person''] \<subseteq> set (labels \<lparr>labels = [''person'', ''chair'', ''wall''],
       colors = [(7, 7, 7), (9, 9, 9), (11, 11, 11)]\<rparr>) \<and>
   length (colors \<lparr>labels = [''person'', ''chair'', ''wall''],
       colors = [(7, 7, 7), (9, 9, 9), (11, 11, 11)]\<rparr>)
     = length (labels \<lparr>labels = [''person'', ''chair'', ''wall''],
       colors = [(7, 7, 7), (9, 9, 9), (11, 11, 11)]\<rparr>) \<and>
   build_color_table \<lparr>labels = [''person'', ''chair'', ''wall''],
       colors = [(7, 7, 7), (9, 9, 9), (11, 11, 11)]\<rparr> [''person'']
     = Inr [white, black, black]"
  using build_color_table_first_occurrences
    [of "[''person'']" "\<lparr>labels = [''person'', ''chair'', ''wall''],
       colors = [(7, 7, 7), (9, 9, 9), (11, 11, 11)]\<rparr>"]
  by (auto simp: spec_color_table_def)

section \<open>Dilation\<close>

lemma px_le_refl: "px_le p p"
  by (cases p) (simp add: px_le_def)

lemma px_le_trans: "px_le p q \<Longrightarrow> px_le q r \<Longrightarrow> px_le p r"
  by (cases p; cases q; cases r) (auto simp: px_le_def)

lemma px_le_max: "px_le p (max_px p q)" "px_le q (max_px p q)"
  by (cases p; cases q; simp add: px_le_def max_px_def)+

lemma white_is_greatest: "px_le white q \<Longrightarrow> q = white"
proof -
  have m: "v = 255" if "255 \<le> v" for v :: u8
  proof -
    have "v \<le> 255" using unat_le_255 [of v] by (simp add: word_le_nat_alt)
    with that show ?thesis by simp
  qed
  show "px_le white q \<Longrightarrow> q = white"
    by (cases q) (auto simp: px_le_def white_def dest: m)
qed

lemma dilate_fold_ge_acc:
  "px_le acc (fold (\<lambda>d acc. case px_at src (y + fst d) (x + snd d) of
       None \<Rightarrow> acc | Some p \<Rightarrow> max_px acc p) offs acc)"
proof (induction offs arbitrary: acc)
  case Nil
  then show ?case by (simp add: px_le_refl)
next
  case (Cons d ds)
  show ?case
  proof (cases "px_at src (y + fst d) (x + snd d)")
    case None
    then show ?thesis using Cons.IH [of acc] by simp
  next
    case (Some p)
    then show ?thesis
      using px_le_trans [OF px_le_max(1) [of acc p] Cons.IH [of "max_px acc p"]] by simp
  qed
qed

lemma dilate_fold_ge_elem:
  assumes "d \<in> set offs" and "px_at src (y + fst d) (x + snd d) = Some p"
  shows "px_le p (fold (\<lambda>d acc. case px_at src (y + fst d) (x + snd d) of
       None \<Rightarrow> acc | Some p \<Rightarrow> max_px acc p) offs acc)"
  using assms(1)
proof (induction offs arbitrary: acc)
  case Nil
  then show ?case by simp
next
  case (Cons e es)
  show ?case
  proof (cases "d = e")
    case True
    have "px_le p (max_px acc p)" by (rule px_le_max(2))
    then show ?thesis
      using px_le_trans [OF _ dilate_fold_ge_acc [of "max_px acc p" src y x es]] assms(2) True
      by simp
  next
    case False
    with Cons.prems have "d \<in> set es" by simp
    from Cons.IH [OF this] show ?thesis by (simp split: option.splits)
  qed
qed

lemma kernel_offsets_member:
  assumes "i < length element" and "j < length (element ! i)" and "element ! i ! j"
  shows "(int i - int ay, int j - int ax) \<in> set (kernel_offsets element (ax, ay))"
  using assms by (force simp: kernel_offsets_def)

lemma width_map_upt: "0 < n \<Longrightarrow> width (map f [0..<n]) = length (f 0)"
  by (simp add: width_def upt_conv_Cons split: list.splits)

lemma cross_origin:
  "(0, 0) \<in> set (kernel_offsets (getStructuringElement_cross (31, 31) (15, 15))
      (width (getStructuringElement_cross (31, 31) (15, 15)) div 2,
       height (getStructuringElement_cross (31, 31) (15, 15)) div 2))"
proof -
  let ?e = "getStructuringElement_cross (31, 31) (15, 15)"
  have w: "width ?e div 2 = 15" "height ?e div 2 = 15"
    by (simp_all add: getStructuringElement_cross_def width_map_upt height_def)
  have "(int 15 - int 15, int 15 - int 15) \<in> set (kernel_offsets ?e (15, 15))"
    by (rule kernel_offsets_member) (simp_all add: getStructuringElement_cross_def)
  then show ?thesis by (simp add: w)
qed

lemma px_at_inside: "y < length img \<Longrightarrow> x < length (img ! y) \<Longrightarrow> px_at img (int y) (int x) = Some (img ! y ! x)"
  by (simp add: px_at_def)

lemma dilate_px_keeps_white:
  assumes "(0, 0) \<in> set offs" and "y < length src" and "x < length (src ! y)"
    and "src ! y ! x = white"
  shows "dilate_px src offs y x = white"
proof -
  have "px_at src (int y + fst (0 :: int, 0 :: int)) (int x + snd (0 :: int, 0 :: int)) = Some white"
    using px_at_inside [OF assms(2,3)] assms(4) by simp
  from dilate_fold_ge_elem [OF assms(1) this]
  have "px_le white (dilate_px src offs y x)" by (simp add: dilate_px_def)
  then show ?thesis by (rule white_is_greatest)
qed

lemma filter_count_mono:
  assumes "length xs = length ys" and "\<And>i. i < length xs \<Longrightarrow> P (xs ! i) \<Longrightarrow> P (ys ! i)"
  shows "length (filter P xs) \<le> length (filter P ys)"
  using assms
proof (induction xs ys rule: list_induct2)
  case Nil
  then show ?case by simp
next
  case (Cons x xs y ys)
  have "length (filter P xs) \<le> length (filter P ys)"
  proof (rule Cons.IH)
    fix i assume "i < length xs" "P (xs ! i)"
    then show "P (ys ! i)" using Cons.prems [of "Suc i"] by simp
  qed
  moreover have "P x \<Longrightarrow> P y" using Cons.prems [of 0] by simp
  ultimately show ?case by auto
qed

text \<open>
  Claim C8: dilation with the cross-shaped 31 by 31 structuring element (radius 15,
  centered anchor) never shrinks the white region: for every mask, the dilated mask has
  at least as many white pixels as the mask.
\<close>

theorem dilate_never_shrinks_white:
  "whiteArea img \<le> whiteArea (cv_dilate img (getStructuringElement_cross (31, 31) (15, 15)))"
proof -
  let ?e = "getStructuringElement_cross (31, 31) (15, 15)"
  let ?offs = "kernel_offsets ?e (width ?e div 2, height ?e div 2)"
  let ?cnt = "\<lambda>row. length (filter (\<lambda>p. p = white) row)"
  have d: "cv_dilate img ?e
      = map (\<lambda>y. map (\<lambda>x. dilate_px img ?offs y x) [0..<length (img ! y)]) [0..<length img]"
    by (simp add: cv_dilate_def Let_def)
  have row: "?cnt (img ! y) \<le> ?cnt (map (\<lambda>x. dilate_px img ?offs y x) [0..<length (img ! y)])"
    if y: "y < length img" for y
  proof (rule filter_count_mono)
    show "length (img ! y) = length (map (\<lambda>x. dilate_px img ?offs y x) [0..<length (img ! y)])"
      by simp
  next
    fix i assume i: "i < length (img ! y)" and "img ! y ! i = white"
    then have "dilate_px img ?offs y i = white"
      by (intro dilate_px_keeps_white cross_origin y)
    then show "map (\<lambda>x. dilate_px img ?offs y x) [0..<length (img ! y)] ! i = white"
      using i by simp
  qed
  have "whiteArea img = sum_list (map (\<lambda>y. ?cnt (img ! y)) [0..<length img])"
    unfolding whiteArea_def by (subst (1) map_nth [of img, symmetric]) (simp only: map_map o_def)
  also have "\<dots> \<le> sum_list (map (\<lambda>y. ?cnt (map (\<lambda>x. dilate_px img ?offs y x)
      [0..<length (img ! y)])) [0..<length img])"
    by (rule sum_list_mono, rule row) simp
  also have "\<dots> = whiteArea (cv_dilate img ?e)"
    by (simp only: whiteArea_def d map_map o_def)
  finally show ?thesis .
qed

section \<open>Unknown target labels\<close>

text \<open>
  Claim C7, as stated: a target label that is absent from the label list makes the
  mask-building step raise on the list lookup.  With the labels \<open>a\<close> and \<open>b\<close>, a single
  color and the target labels \<open>b\<close> and \<open>zzz\<close>, the label \<open>zzz\<close> is absent, but the loop
  fails before it looks \<open>zzz\<close> up: the lookup of \<open>b\<close> succeeds with the index 1, and
  the assignment \<^verbatim>\<open>colors[1] = (255, 255, 255)\<close> raises \<^verbatim>\<open>IndexError\<close>.
\<close>

theorem absent_target_label_index_error:
  "''zzz'' \<in> set [''b'', ''zzz''] \<and> ''zzz'' \<notin> set [''a'', ''b''] \<and>
   list_index [''a'', ''b''] ''b'' = Inr 1 \<and>
   set_item [black] 1 white = Inl IndexError \<and>
   build_color_table \<lparr>labels = [''a'', ''b''], colors = [white]\<rparr> [''b'', ''zzz'']
     = Inl IndexError \<and>
   main_loop [8] \<lparr>labels_to_mask = [''b'', ''zzz''], blur = True,
       use_background_image = False, blur_level = 3\<rparr>
     \<lparr>labels = [''a'', ''b''], colors = [white]\<rparr>
     [\<lparr>frame = solid 2 2 white, class_map = [[0, 0], [0, 0]],
       resized_background = Inl CvError, check_exit = False\<rparr>] []
     = Aborted IndexError []"
  by (simp add: build_color_table_def set_item_def process_frame_def)

text \<open>
  Claim C7, amended: when the color list has an entry for every label, a configured
  target label that is absent from the model's label list makes the mask-building step
  of the frame raise the \<^verbatim>\<open>ValueError\<close> of \<^verbatim>\<open>list.index\<close>: no color table and no mask
  are built, no frame is sent, and the error ends the run.
\<close>

theorem absent_target_label_aborts:
  assumes "t \<in> set (labels_to_mask cfg)" and "t \<notin> set (labels seg)"
    and "length (labels seg) \<le> length (colors seg)"
  shows "build_color_table seg (labels_to_mask cfg) = Inl ValueError \<and>
    process_frame simd cfg seg it = Inl ValueError \<and>
    main_loop simd cfg seg (it # its) sent = Aborted ValueError sent"
proof -
  from paint_targets_absent [OF assms(1,2), of "map (\<lambda>i. black) (colors seg)"] assms(3)
  have e: "build_color_table seg (labels_to_mask cfg) = Inl ValueError"
    by (auto simp: build_color_table_def)
  have p: "process_frame simd cfg seg it = Inl ValueError" by (simp add: process_frame_def e)
  then have "main_loop simd cfg seg (it # its) sent = Aborted ValueError sent" by simp
  then show ?thesis using e p by blast
qed

theorem absent_target_label_aborts_witness:
  "''dog'' \<in> set (labels_to_mask \<lparr>labels_to_mask = [''person'', ''dog''], blur = True,
       use_background_image = False, blur_level = 3\<rparr>) \<and>
   ''dog'' \<notin> set (labels \<lparr>labels = [''person'', ''chair'', ''wall''],
       colors = [black, black, black]\<rparr>) \<and>
   length (labels \<lparr>labels = [''person'', ''chair'', ''wall''], colors = [black, black, black]\<rparr>)
     \<le> length (colors \<lparr>labels = [''person'', ''chair'', ''wall''],
         colors = [black, black, black]\<rparr>) \<and>
   build_color_table \<lparr>labels = [''person'', ''chair'', ''wall''],
       colors = [black, black, black]\<rparr> [''person'', ''dog''] = Inl ValueError \<and>
   main_loop [8] \<lparr>labels_to_mask = [''person'', ''dog''], blur = True,
       use_background_image = False, blur_level = 3\<rparr>
     \<lparr>labels = [''person'', ''chair'', ''wall''], colors = [black, black, black]\<rparr>
     [\<lparr>frame = solid 2 2 white, class_map = [[0, 1], [2, 0]],
       resized_background = Inl CvError, check_exit = False\<rparr>] []
     = Aborted ValueError []"
  using absent_target_label_aborts
    [of "''dog''" "\<lparr>labels_to_mask = [''person'', ''dog''], blur = True,
       use_background_image = False, blur_level = 3\<rparr>"
       "\<lparr>labels = [''person'', ''chair'', ''wall''], colors = [black, black, black]\<rparr>"
       "[8]"
       "\<lparr>frame = solid 2 2 white, class_map = [[0, 1], [2, 0]],
       resized_background = Inl CvError, check_exit = False\<rparr>" "[]" "[]"]
  by auto

end
